theory Spec2Isabelle
  imports Complex_Main
begin

section \<open>The key validation of WeChatDecryptService\<close>

text \<open>
  \<^verbatim>\<open>validateKey(dbPath: string, hexKey: string): boolean { return true }\<close>
  (electron/services/decryptService.ts). Both arguments are ignored.
\<close>

definition validateKey :: "string \<Rightarrow> string \<Rightarrow> bool" where
  "validateKey dbPath hexKey = True"


section \<open>The bounded cache (class LRUCache)\<close>

text \<open>
  The class keeps its entries in a JavaScript \<^verbatim>\<open>Map\<close>, which iterates in insertion
  order and holds each key once. The model is an association list in that order.
  A key is any JavaScript value of the type argument \<^verbatim>\<open>K\<close>; the one value the code
  itself treats specially is \<^verbatim>\<open>undefined\<close>, so keys are modelled with it made explicit.
  The capacity is a JavaScript \<^verbatim>\<open>number\<close>; it is modelled by the real number it denotes
  (the comparison of the integer size with it is exact).
\<close>

datatype 'k js_key = Undefined | Key 'k

type_synonym ('k, 'v) js_map = "('k js_key \<times> 'v) list"

definition Map_keys :: "('k, 'v) js_map \<Rightarrow> 'k js_key list" where
  "Map_keys m = map fst m"

definition Map_has :: "('k, 'v) js_map \<Rightarrow> 'k js_key \<Rightarrow> bool" where
  "Map_has m k = (map_of m k \<noteq> None)"

definition Map_get :: "('k, 'v) js_map \<Rightarrow> 'k js_key \<Rightarrow> 'v option" where
  "Map_get m k = map_of m k"

definition Map_delete :: "'k js_key \<Rightarrow> ('k, 'v) js_map \<Rightarrow> ('k, 'v) js_map" where
  "Map_delete k m = filter (\<lambda>e. fst e \<noteq> k) m"

text \<open>\<^verbatim>\<open>Map.prototype.set\<close>: a present key keeps its position, a new key goes last.\<close>

fun Map_set :: "'k js_key \<Rightarrow> 'v \<Rightarrow> ('k, 'v) js_map \<Rightarrow> ('k, 'v) js_map" where
  "Map_set k v [] = [(k, v)]"
| "Map_set k v (e # m) = (if fst e = k then (k, v) # m else e # Map_set k v m)"

text \<open>\<^verbatim>\<open>m.keys().next().value\<close>: the first key, \<^verbatim>\<open>undefined\<close> when the map is empty.\<close>

definition Map_first_key :: "('k, 'v) js_map \<Rightarrow> 'k js_key" where
  "Map_first_key m = (case Map_keys m of [] \<Rightarrow> Undefined | k # _ \<Rightarrow> k)"

record ('k, 'v) LRUCache =
  capacity :: real
  cache :: "('k, 'v) js_map"

definition LRUCache_new :: "real \<Rightarrow> ('k, 'v) LRUCache" where
  "LRUCache_new cap = \<lparr>capacity = cap, cache = []\<rparr>"

text \<open>\<^verbatim>\<open>get\<close>: a miss returns \<^verbatim>\<open>undefined\<close> (here \<open>None\<close>); a hit moves the entry last.\<close>

definition lru_get :: "'k js_key \<Rightarrow> ('k, 'v) LRUCache \<Rightarrow> 'v option \<times> ('k, 'v) LRUCache" where
  "lru_get key c =
     (if \<not> Map_has (cache c) key then (None, c)
      else case Map_get (cache c) key of
             None \<Rightarrow> (None, c)
           | Some val \<Rightarrow> (Some val, c\<lparr>cache := Map_set key val (Map_delete key (cache c))\<rparr>))"

definition lru_set :: "'k js_key \<Rightarrow> 'v \<Rightarrow> ('k, 'v) LRUCache \<Rightarrow> ('k, 'v) LRUCache" where
  "lru_set key val c =
     (let m = (if Map_has (cache c) key then Map_delete key (cache c)
               else if real (length (cache c)) \<ge> capacity c then
                 (let firstKey = Map_first_key (cache c)
                  in if firstKey \<noteq> Undefined then Map_delete firstKey (cache c) else cache c)
               else cache c)
      in c\<lparr>cache := Map_set key val m\<rparr>)"

definition lru_has :: "'k js_key \<Rightarrow> ('k, 'v) LRUCache \<Rightarrow> bool" where
  "lru_has key c = Map_has (cache c) key"

definition lru_clear :: "('k, 'v) LRUCache \<Rightarrow> ('k, 'v) LRUCache" where
  "lru_clear c = c\<lparr>cache := []\<rparr>"

definition lru_size :: "('k, 'v) LRUCache \<Rightarrow> nat" where
  "lru_size c = length (cache c)"

text \<open>A caller's sequence of operations on one cache.\<close>

datatype ('k, 'v) lru_op = Get "'k js_key" | Set "'k js_key" 'v | Clear

fun lru_apply :: "('k, 'v) lru_op \<Rightarrow> ('k, 'v) LRUCache \<Rightarrow> ('k, 'v) LRUCache" where
  "lru_apply (Get k) c = snd (lru_get k c)"
| "lru_apply (Set k v) c = lru_set k v c"
| "lru_apply Clear c = lru_clear c"

fun lru_run :: "('k, 'v) lru_op list \<Rightarrow> ('k, 'v) LRUCache \<Rightarrow> ('k, 'v) LRUCache" where
  "lru_run [] c = c"
| "lru_run (x # xs) c = lru_run xs (lru_apply x c)"

fun op_key :: "('k, 'v) lru_op \<Rightarrow> 'k js_key option" where
  "op_key (Get k) = Some k"
| "op_key (Set k v) = Some k"
| "op_key Clear = None"

text \<open>What holds of every cache the operations build when no key is \<^verbatim>\<open>undefined\<close>.\<close>

definition lru_inv :: "('k, 'v) LRUCache \<Rightarrow> bool" where
  "lru_inv c \<longleftrightarrow>
     distinct (Map_keys (cache c)) \<and> Undefined \<notin> set (Map_keys (cache c)) \<and>
     int (length (cache c)) \<le> \<lceil>capacity c\<rceil>"

text \<open>
  The specification's "least recently used (the oldest by insertion/refresh order)": an
  operation touches a key when it stores it (\<open>set\<close>) or reads it successfully (\<open>get\<close> of
  a cached key). \<open>spec_last_touch\<close> replays the operations, numbered from 1, and gives for
  each key the number of the last operation that touched it (0 when none did).
\<close>

fun spec_touches :: "('k, 'v) lru_op \<Rightarrow> ('k, 'v) LRUCache \<Rightarrow> 'k js_key option" where
  "spec_touches (Set k v) c = Some k"
| "spec_touches (Get k) c = (if lru_has k c then Some k else None)"
| "spec_touches Clear c = None"

fun spec_last_touch ::
  "('k, 'v) lru_op list \<Rightarrow> ('k, 'v) LRUCache \<Rightarrow> nat \<Rightarrow> ('k js_key \<Rightarrow> nat) \<Rightarrow> ('k js_key \<Rightarrow> nat)" where
  "spec_last_touch [] c t T = T"
| "spec_last_touch (x # xs) c t T =
     spec_last_touch xs (lru_apply x c) (Suc t)
       (case spec_touches x c of None \<Rightarrow> T | Some k \<Rightarrow> T(k := Suc t))"

text \<open>
  The keys of the cache stand in the order of their last touch, none later than the clock.
\<close>

definition recency_ok :: "('k, 'v) LRUCache \<Rightarrow> nat \<Rightarrow> ('k js_key \<Rightarrow> nat) \<Rightarrow> bool" where
  "recency_ok c t T \<longleftrightarrow>
     sorted_wrt (\<lambda>a b. T a < T b) (Map_keys (cache c)) \<and> list_all (\<lambda>k. T k \<le> t) (Map_keys (cache c))"


section \<open>Values that cross the thread boundary\<close>

text \<open>
  A thrown JavaScript error, with the two fields the code reads: \<^verbatim>\<open>String(err)\<close>
  (also \<^verbatim>\<open>${e}\<close>) and \<^verbatim>\<open>err.message\<close>. \<open>String_of_error\<close> is
  \<^verbatim>\<open>Error.prototype.toString\<close>.
\<close>

datatype js_error = JsError (err_name: string) (err_message: string)

definition String_of_error :: "js_error \<Rightarrow> string" where
  "String_of_error e =
     (if err_name e = [] then err_message e
      else if err_message e = [] then err_name e
      else err_name e @ '': '' @ err_message e)"

text \<open>
  The messages exchanged between the service and the worker:
  \<^verbatim>\<open>{type:'ready'}\<close>, \<^verbatim>\<open>{type:'decrypt', id, inputPath, outputPath, hexKey}\<close>,
  \<^verbatim>\<open>{type:'progress', id, current, total}\<close>, \<^verbatim>\<open>{type:'success', id}\<close> and
  \<^verbatim>\<open>{type:'error', id, error}\<close>. The worker's start-up failures post an error message
  with no \<^verbatim>\<open>id\<close> field, hence the optional id.
\<close>

datatype message =
    Ready
  | DecryptRequest string string string string
  | Progress string int int
  | Success string
  | Error "string option" string

section \<open>The worker (decryptWorker)\<close>

subsection \<open>Text helpers\<close>

text \<open>
  Decimal rendering of an integer, as a template literal renders a status code: the
  digits are produced from the last one, each put in front of those already found
  (\<open>digit_char\<close> is only applied to numbers below 10).
\<close>

definition digit_char :: "nat \<Rightarrow> char" where
  "digit_char d = ''0123456789'' ! d"

fun decimal_digits :: "nat \<Rightarrow> string \<Rightarrow> string" where
  "decimal_digits n acc =
     (if n div 10 = 0 then digit_char (n mod 10) # acc
      else decimal_digits (n div 10) (digit_char (n mod 10) # acc))"

definition Number_toString :: "int \<Rightarrow> string" where
  "Number_toString i =
     (if 0 \<le> i then decimal_digits (nat i) [] else CHR ''-'' # decimal_digits (nat (- i)) [])"

text \<open>
  \<^verbatim>\<open>s.replace(/\0+$/, '')\<close>: the regular expression is tried at each position from the
  left; it matches at a position exactly when the rest of the string is a non-empty run of
  NUL characters, and the match is replaced by the empty string.
\<close>

definition NUL :: char where
  "NUL = CHR 0x00"

fun replace_trailing_nuls :: "string \<Rightarrow> string" where
  "replace_trailing_nuls [] = []"
| "replace_trailing_nuls (c # cs) =
     (if c = NUL \<and> list_all (\<lambda>x. x = NUL) cs then [] else c # replace_trailing_nuls cs)"


text \<open>
  \<^verbatim>\<open>Buffer.alloc(512)\<close> is zero-filled; \<^verbatim>\<open>Wcdb_GetLastErrorMsg(buffer, 512)\<close> writes the
  bytes \<open>written\<close> at its start (at most 512 of them).
\<close>

definition buffer_after_write :: "string \<Rightarrow> string" where
  "buffer_after_write written = take 512 written @ replicate (512 - length written) NUL"

text \<open>
  \<^verbatim>\<open>buffer.toString('utf8')\<close> decodes all 512 bytes as UTF-8. A JavaScript string is
  written here as its UTF-8 bytes, so a well-formed sequence is passed on as it is, and
  every ill-formed one (a byte that cannot start a sequence, a sequence cut short by a
  byte outside the expected range or by the end of the buffer) becomes one U+FFFD, the
  bytes EF BF BD; a byte that cuts a sequence short is then read again as the start of the
  next one. This is the decoder of the WHATWG Encoding standard, which Node follows:
  \<open>bytes_needed\<close> counts the continuation bytes still expected, \<open>lower_boundary\<close> and
  \<open>upper_boundary\<close> bound the next one, \<open>pending_bytes\<close> are those of the sequence
  under way. The byte 00 only ever stands for U+0000, so the trailing NUL characters of the
  decoded string are the trailing 00 bytes.
\<close>

definition REPLACEMENT_CHARACTER :: string where
  "REPLACEMENT_CHARACTER = [CHR 0xEF, CHR 0xBF, CHR 0xBD]"

record utf8_state =
  pending_bytes :: string
  bytes_needed :: nat
  lower_boundary :: nat
  upper_boundary :: nat

definition utf8_idle :: utf8_state where
  "utf8_idle = \<lparr>pending_bytes = [], bytes_needed = 0, lower_boundary = 0x80, upper_boundary = 0xBF\<rparr>"

text \<open>A byte read while no sequence is under way: what is put out, and the next state.\<close>

definition utf8_lead :: "char \<Rightarrow> string \<times> utf8_state" where
  "utf8_lead b =
     (let n = (of_char b :: nat) in
      if n \<le> 0x7F then ([b], utf8_idle)
      else if 0xC2 \<le> n \<and> n \<le> 0xDF then
        ([], \<lparr>pending_bytes = [b], bytes_needed = 1,
              lower_boundary = 0x80, upper_boundary = 0xBF\<rparr>)
      else if 0xE0 \<le> n \<and> n \<le> 0xEF then
        ([], \<lparr>pending_bytes = [b], bytes_needed = 2,
              lower_boundary = (if n = 0xE0 then 0xA0 else 0x80),
              upper_boundary = (if n = 0xED then 0x9F else 0xBF)\<rparr>)
      else if 0xF0 \<le> n \<and> n \<le> 0xF4 then
        ([], \<lparr>pending_bytes = [b], bytes_needed = 3,
              lower_boundary = (if n = 0xF0 then 0x90 else 0x80),
              upper_boundary = (if n = 0xF4 then 0x8F else 0xBF)\<rparr>)
      else (REPLACEMENT_CHARACTER, utf8_idle))"

definition utf8_step :: "utf8_state \<Rightarrow> char \<Rightarrow> string \<times> utf8_state" where
  "utf8_step st b =
     (if bytes_needed st = 0 then utf8_lead b
      else if lower_boundary st \<le> of_char b \<and> (of_char b :: nat) \<le> upper_boundary st then
        (if bytes_needed st = 1 then (pending_bytes st @ [b], utf8_idle)
         else ([], \<lparr>pending_bytes = pending_bytes st @ [b], bytes_needed = bytes_needed st - 1,
                    lower_boundary = 0x80, upper_boundary = 0xBF\<rparr>))
      else (case utf8_lead b of (out, st') \<Rightarrow> (REPLACEMENT_CHARACTER @ out, st')))"

fun utf8_decode_from :: "utf8_state \<Rightarrow> string \<Rightarrow> string" where
  "utf8_decode_from st [] = (if bytes_needed st = 0 then [] else REPLACEMENT_CHARACTER)"
| "utf8_decode_from st (b # bs) =
     (case utf8_step st b of (out, st') \<Rightarrow> out @ utf8_decode_from st' bs)"

definition Buffer_toString_utf8 :: "string \<Rightarrow> string" where
  "Buffer_toString_utf8 bytes = utf8_decode_from utf8_idle bytes"

subsection \<open>What the worker's surroundings answer\<close>

text \<open>
  One run of the blocking native call: the callback invocations it makes, each with the
  value \<^verbatim>\<open>Date.now()\<close> has at that moment and the arguments (current, total), and then
  either the returned status code or a thrown error.
\<close>

record native_run =
  callbacks :: "(int \<times> int \<times> int) list"
  outcome :: "js_error + int"

record worker_env =
  dirname :: "string \<Rightarrow> string"
  existsSync :: "string \<Rightarrow> bool"
  mkdirSync :: "string \<Rightarrow> js_error option"
  koffi_register_throws :: "js_error option"
  Wcdb_DecryptDatabaseWithProgress :: "string \<Rightarrow> string \<Rightarrow> string \<Rightarrow> native_run"
  Wcdb_GetLastErrorMsg :: "js_error + string"

text \<open>
  The worker's own state: the callbacks koffi currently holds registered (each
  registration takes a fresh handle), and the messages posted to the parent, in order.
\<close>

record worker_state =
  registered :: "nat list"
  next_handle :: nat
  outbox :: "message list"

definition postMessage :: "message \<Rightarrow> worker_state \<Rightarrow> worker_state" where
  "postMessage m w = w\<lparr>outbox := outbox w @ [m]\<rparr>"

definition koffi_register :: "worker_env \<Rightarrow> worker_state \<Rightarrow> js_error + (nat \<times> worker_state)" where
  "koffi_register env w =
     (case koffi_register_throws env of
        Some e \<Rightarrow> Inl e
      | None \<Rightarrow> Inr (next_handle w,
                     w\<lparr>registered := next_handle w # registered w,
                       next_handle := Suc (next_handle w)\<rparr>))"

definition koffi_unregister :: "nat \<Rightarrow> worker_state \<Rightarrow> worker_state" where
  "koffi_unregister h w = w\<lparr>registered := removeAll h (registered w)\<rparr>"

subsection \<open>The progress callback and its throttle\<close>

text \<open>
  \<^verbatim>\<open>
  const now = Date.now()
  if (now - lastUpdate > 100 || current === total || current === 1) {
      lastUpdate = now
      parentPort?.postMessage({ type: 'progress', id, current, total })
  }
  \<close>
  The callback takes the clock value with its arguments and the variable \<open>lastUpdate\<close>;
  it returns the new \<open>lastUpdate\<close> and what it posted (\<open>total'\<close> is the source's
  \<^verbatim>\<open>total\<close>).
\<close>

definition onProgress :: "string \<Rightarrow> int \<times> int \<times> int \<Rightarrow> int \<Rightarrow> int \<times> message list" where
  "onProgress tid call lastUpdate =
     (case call of (now, current, total') \<Rightarrow>
        if now - lastUpdate > 100 \<or> current = total' \<or> current = 1
        then (now, [Progress tid current total'])
        else (lastUpdate, []))"

text \<open>The native call invoking the callback for each of its steps, in order.\<close>

fun run_callbacks :: "string \<Rightarrow> (int \<times> int \<times> int) list \<Rightarrow> int \<Rightarrow> int \<times> message list" where
  "run_callbacks tid [] lastUpdate = (lastUpdate, [])"
| "run_callbacks tid (call # calls) lastUpdate =
     (case onProgress tid call lastUpdate of
        (lastUpdate1, posted1) \<Rightarrow>
          (case run_callbacks tid calls lastUpdate1 of
             (lastUpdate2, posted2) \<Rightarrow> (lastUpdate2, posted1 @ posted2)))"

text \<open>
  The value of \<open>lastUpdate\<close> when the i-th invocation of one task starts (the variable is
  initialised to 0), and what that invocation posts.
\<close>

definition lastUpdate_before :: "string \<Rightarrow> (int \<times> int \<times> int) list \<Rightarrow> nat \<Rightarrow> int" where
  "lastUpdate_before tid calls i = fst (run_callbacks tid (take i calls) 0)"

definition posted_at :: "string \<Rightarrow> (int \<times> int \<times> int) list \<Rightarrow> nat \<Rightarrow> message list" where
  "posted_at tid calls i = snd (onProgress tid (calls ! i) (lastUpdate_before tid calls i))"

subsection \<open>The message handler\<close>

text \<open>
  The body of the \<^verbatim>\<open>try\<close> block. It returns the worker's state when the block is left
  and, when it is left by an exception, the error thrown. What the block did before the
  exception stays done.
\<close>

definition decrypt_try_block ::
  "worker_env \<Rightarrow> string \<Rightarrow> string \<Rightarrow> string \<Rightarrow> string \<Rightarrow> worker_state \<Rightarrow> worker_state \<times> js_error option" where
  "decrypt_try_block env tid inputPath outputPath hexKey w =
     (let outputDir = dirname env outputPath in
      case (if \<not> existsSync env outputDir then mkdirSync env outputDir else None) of
        Some e \<Rightarrow> (w, Some e)
      | None \<Rightarrow>
         (case koffi_register env w of
            Inl e \<Rightarrow> (w, Some e)
          | Inr (cb, w1) \<Rightarrow>
             (let run = Wcdb_DecryptDatabaseWithProgress env inputPath outputPath hexKey;
                  w2 = w1\<lparr>outbox := outbox w1 @ snd (run_callbacks tid (callbacks run) 0)\<rparr>
              in case outcome run of
                   Inl e \<Rightarrow> (w2, Some e)
                 | Inr result \<Rightarrow>
                    (let w3 = koffi_unregister cb w2 in
                     if result = 0 then (postMessage (Success tid) w3, None)
                     else
                       (case Wcdb_GetLastErrorMsg env of
                          Inl e \<Rightarrow> (w3, Some e)
                        | Inr written \<Rightarrow>
                           (let errorMsg = replace_trailing_nuls
                                             (Buffer_toString_utf8 (buffer_after_write written))
                            in (postMessage
                                  (Error (Some tid)
                                     (if errorMsg \<noteq> [] then errorMsg
                                      else ''ErrorCode: '' @ Number_toString result)) w3,
                                None)))))))"

text \<open>
  The handler of \<^verbatim>\<open>parentPort.on('message', ...)\<close>: only \<^verbatim>\<open>decrypt\<close> messages are acted
  on; the \<^verbatim>\<open>catch\<close> clause posts the error. The second component is the exception that
  leaves the handler, if any.
\<close>

definition on_message :: "worker_env \<Rightarrow> message \<Rightarrow> worker_state \<Rightarrow> worker_state \<times> js_error option" where
  "on_message env msg w =
     (case msg of
        DecryptRequest tid inputPath outputPath hexKey \<Rightarrow>
          (case decrypt_try_block env tid inputPath outputPath hexKey w of
             (w', None) \<Rightarrow> (w', None)
           | (w', Some err) \<Rightarrow> (postMessage (Error (Some tid) (String_of_error err)) w', None))
      | _ \<Rightarrow> (w, None))"


subsection \<open>Sample surroundings\<close>

text \<open>
  Surroundings in which the output directory is missing, and the native call reports three
  steps at the clock values 1000, 1050 and 1100 before it ends with \<open>out\<close>. The other
  answers are parameters: what \<^verbatim>\<open>mkdirSync\<close> and \<^verbatim>\<open>koffi.register\<close> throw, if anything,
  and what the last-error call does.
\<close>

definition sample_env ::
  "js_error option \<Rightarrow> js_error option \<Rightarrow> js_error + int \<Rightarrow> js_error + string \<Rightarrow> worker_env" where
  "sample_env mk reg out buf =
     \<lparr>dirname = (\<lambda>p. ''C:/out''),
      existsSync = (\<lambda>p. False),
      mkdirSync = (\<lambda>p. mk),
      koffi_register_throws = reg,
      Wcdb_DecryptDatabaseWithProgress =
        (\<lambda>inputPath outputPath hexKey.
           \<lparr>callbacks = [(1000, 1, 3), (1050, 2, 3), (1100, 3, 3)], outcome = out\<rparr>),
      Wcdb_GetLastErrorMsg = buf\<rparr>"

definition fresh_worker :: worker_state where
  "fresh_worker = \<lparr>registered = [], next_handle = 0, outbox = []\<rparr>"

definition sample_request :: message where
  "sample_request = DecryptRequest ''k3x9'' ''C:/in/a.db'' ''C:/out/a.db'' ''00ff''"


section \<open>The service (NativeDecryptService)\<close>

subsection \<open>Data\<close>

text \<open>The value a decrypt promise resolves to: \<^verbatim>\<open>{ success: boolean; error?: string }\<close>.\<close>

record result =
  success :: bool
  error :: "string option"

text \<open>
  A pending task holds two closures: the \<^verbatim>\<open>resolve\<close> function of the caller's promise and
  the optional progress callback. They are modelled by the identity of the promise and of
  the callback; calling them is recorded as an effect.
\<close>

record DecryptTask =
  resolve :: nat
  task_onProgress :: "nat option"

text \<open>The worker object, with the arguments it was constructed from (script, dllPath).\<close>

datatype worker = Worker string string

record NativeDecryptService =
  worker :: "worker option"
  dllPath :: "string option"
  initialized :: bool
  initError :: "string option"
  tasks :: "string \<rightharpoonup> DecryptTask"

text \<open>What the service does to the world outside its fields.\<close>

datatype effect =
    Started worker
  | Posted message
  | Resolved nat result
  | Progressed nat int int

text \<open>
  The file system and the thread constructor as the service sees them when \<open>init\<close> runs:
  the candidate paths (built from the application's directories), which paths exist, and
  the error \<^verbatim>\<open>new Worker(...)\<close> throws, if any.
\<close>

record host_env =
  dll_candidates :: "string list"
  worker_candidates :: "string list"
  fs_existsSync :: "string \<Rightarrow> bool"
  new_Worker_throws :: "js_error option"

text \<open>
  The source's message texts, as UTF-8 bytes: "[not found] wcdb_decrypt.dll",
  "[not found] decryptWorker.js", "[initialisation failed]: " and "Worker [not started]".
\<close>

definition msg_dll_not_found :: string where
  "msg_dll_not_found =
     [CHR 0xE6, CHR 0x9C, CHR 0xAA, CHR 0xE6, CHR 0x89, CHR 0xBE, CHR 0xE5, CHR 0x88, CHR 0xB0]
     @ '' wcdb_decrypt.dll''"

definition msg_worker_not_found :: string where
  "msg_worker_not_found =
     [CHR 0xE6, CHR 0x9C, CHR 0xAA, CHR 0xE6, CHR 0x89, CHR 0xBE, CHR 0xE5, CHR 0x88, CHR 0xB0]
     @ '' decryptWorker.js''"

definition msg_init_failed :: string where
  "msg_init_failed =
     [CHR 0xE5, CHR 0x88, CHR 0x9D, CHR 0xE5, CHR 0xA7, CHR 0x8B, CHR 0xE5, CHR 0x8C, CHR 0x96,
      CHR 0xE5, CHR 0xA4, CHR 0xB1, CHR 0xE8, CHR 0xB4, CHR 0xA5] @ '': ''"

definition msg_worker_not_started :: string where
  "msg_worker_not_started =
     ''Worker '' @ [CHR 0xE6, CHR 0x9C, CHR 0xAA, CHR 0xE5, CHR 0x90, CHR 0xAF, CHR 0xE5, CHR 0x8A,
                    CHR 0xA8]"

text \<open>JavaScript truthiness of a \<^verbatim>\<open>string | null\<close>: \<^verbatim>\<open>null\<close> and \<^verbatim>\<open>''\<close> are falsy.\<close>

definition falsy :: "string option \<Rightarrow> bool" where
  "falsy x = (case x of None \<Rightarrow> True | Some str \<Rightarrow> str = [])"

subsection \<open>The id generator\<close>

text \<open>
  \<^verbatim>\<open>const generateId = () => Math.random().toString(36).substring(2, 15)\<close>.
  The random draw is an input of the model, given by its base-36 rendering
  (\<^verbatim>\<open>Math.random().toString(36)\<close>, such as \<^verbatim>\<open>0.4fzyo82mvyr\<close>); \<open>substring\<close> is
  \<^verbatim>\<open>String.prototype.substring\<close> on two non-negative indices.
\<close>

definition substring :: "string \<Rightarrow> nat \<Rightarrow> nat \<Rightarrow> string" where
  "substring str a b =
     (let a' = min a (length str); b' = min b (length str)
      in take (max a' b' - min a' b') (drop (min a' b') str))"

definition generateId :: "string \<Rightarrow> string" where
  "generateId random36 = substring random36 2 15"

subsection \<open>Initialisation\<close>

text \<open>\<^verbatim>\<open>candidates.find(p => fs.existsSync(p)) || null\<close>.\<close>

definition findDllPath :: "host_env \<Rightarrow> string option" where
  "findDllPath env =
     (case find (fs_existsSync env) (dll_candidates env) of
        None \<Rightarrow> None
      | Some p \<Rightarrow> if p = [] then None else Some p)"

definition findWorkerPath :: "host_env \<Rightarrow> string option" where
  "findWorkerPath env =
     (case find (fs_existsSync env) (worker_candidates env) of
        None \<Rightarrow> None
      | Some p \<Rightarrow> if p = [] then None else Some p)"

text \<open>
  \<open>init\<close>: nothing when already initialised; otherwise the DLL and the worker script are
  looked up, the worker is constructed, and \<open>initialized\<close> is set at once, without
  waiting for any message of the worker. A failure is recorded in \<open>initError\<close>.
\<close>

definition init :: "host_env \<Rightarrow> NativeDecryptService \<Rightarrow> NativeDecryptService \<times> effect list" where
  "init env s =
     (if initialized s then (s, [])
      else
        (let s1 = s\<lparr>dllPath := findDllPath env\<rparr> in
         case dllPath s1 of
           None \<Rightarrow> (s1\<lparr>initError := Some msg_dll_not_found\<rparr>, [])
         | Some dll \<Rightarrow>
            if dll = [] then (s1\<lparr>initError := Some msg_dll_not_found\<rparr>, [])
            else
              (case findWorkerPath env of
                 None \<Rightarrow> (s1\<lparr>initError := Some msg_worker_not_found\<rparr>, [])
               | Some workerScript \<Rightarrow>
                  if workerScript = [] then (s1\<lparr>initError := Some msg_worker_not_found\<rparr>, [])
                  else
                    (case new_Worker_throws env of
                       Some e \<Rightarrow>
                         (s1\<lparr>initError := Some (msg_init_failed @ String_of_error e)\<rparr>, [])
                     | None \<Rightarrow>
                         (s1\<lparr>worker := Some (Worker workerScript dll), initialized := True\<rparr>,
                          [Started (Worker workerScript dll)])))))"

text \<open>The fields of a new object, and the constructor, which calls \<open>init\<close>.\<close>

definition blank_service :: NativeDecryptService where
  "blank_service =
     \<lparr>worker = None, dllPath = None, initialized = False, initError = None, tasks = Map.empty\<rparr>"

definition NativeDecryptService_new :: "host_env \<Rightarrow> NativeDecryptService \<times> effect list" where
  "NativeDecryptService_new env = init env blank_service"

definition isAvailable :: "NativeDecryptService \<Rightarrow> bool" where
  "isAvailable s = (initialized s \<and> worker s \<noteq> None)"

subsection \<open>The handlers of the worker's events\<close>

text \<open>The \<^verbatim>\<open>id\<close> field of a message (\<^verbatim>\<open>undefined\<close> when it has none).\<close>

fun msg_id :: "message \<Rightarrow> string option" where
  "msg_id Ready = None"
| "msg_id (DecryptRequest tid inputPath outputPath hexKey) = Some tid"
| "msg_id (Progress tid current total') = Some tid"
| "msg_id (Success tid) = Some tid"
| "msg_id (Error tid err) = tid"

text \<open>
  \<open>handleWorkerMessage\<close>: a \<^verbatim>\<open>ready\<close> message is only logged; for any other message the
  task is looked up under the message's id and, when there is none, the handler returns.
\<close>

definition handleWorkerMessage ::
  "message \<Rightarrow> NativeDecryptService \<Rightarrow> NativeDecryptService \<times> effect list" where
  "handleWorkerMessage msg s =
     (case msg of
        Ready \<Rightarrow> (s, [])
      | _ \<Rightarrow>
        (case msg_id msg of
           None \<Rightarrow> (s, [])
         | Some k \<Rightarrow>
            (case tasks s k of
               None \<Rightarrow> (s, [])
             | Some task \<Rightarrow>
                (case msg of
                   Success _ \<Rightarrow>
                     (s\<lparr>tasks := (tasks s)(k := None)\<rparr>,
                      [Resolved (resolve task) \<lparr>success = True, error = None\<rparr>])
                 | Error _ err \<Rightarrow>
                     (s\<lparr>tasks := (tasks s)(k := None)\<rparr>,
                      [Resolved (resolve task) \<lparr>success = False, error = Some err\<rparr>])
                 | Progress _ current total' \<Rightarrow>
                     (s, case task_onProgress task of
                           None \<Rightarrow> []
                         | Some sink \<Rightarrow> [Progressed sink current total'])
                 | _ \<Rightarrow> (s, [])))))"

text \<open>\<^verbatim>\<open>worker.on('error', ...)\<close> and \<^verbatim>\<open>worker.on('exit', ...)\<close>.\<close>

definition on_worker_error :: "js_error \<Rightarrow> NativeDecryptService \<Rightarrow> NativeDecryptService" where
  "on_worker_error err s = s\<lparr>initError := Some (''Worker error: '' @ err_message err)\<rparr>"

definition on_worker_exit :: "int \<Rightarrow> NativeDecryptService \<Rightarrow> NativeDecryptService" where
  "on_worker_exit code s = (if code \<noteq> 0 then s\<lparr>worker := None, initialized := False\<rparr> else s)"

subsection \<open>Submitting a task\<close>

text \<open>
  The first part of \<open>decryptDatabaseAsync\<close>:
  \<^verbatim>\<open>
  if (!this.worker) {
      if (!this.initialized && !this.initError) { this.init() }
      if (!this.worker) { return { success: false, error: this.initError || '...' } }
  }
  \<close>
  \<open>ensure_worker\<close> is the conditional call of \<open>init\<close>.
\<close>

definition ensure_worker :: "host_env \<Rightarrow> NativeDecryptService \<Rightarrow> NativeDecryptService \<times> effect list" where
  "ensure_worker env s =
     (if worker s = None then
        (if \<not> initialized s \<and> falsy (initError s) then init env s else (s, []))
      else (s, []))"

text \<open>
  \<open>decryptDatabaseAsync\<close>, given the surroundings, the random draw and the identity of
  the promise it returns. Without a worker the promise is resolved with the error; with
  one, the task is stored under the generated id (\<^verbatim>\<open>this.tasks.set(id, ...)\<close>, which
  replaces an entry already stored under that id) and the request is posted.
\<close>

definition decryptDatabaseAsync ::
  "host_env \<Rightarrow> string \<Rightarrow> nat \<Rightarrow> string \<Rightarrow> string \<Rightarrow> string \<Rightarrow> nat option \<Rightarrow>
   NativeDecryptService \<Rightarrow> NativeDecryptService \<times> effect list" where
  "decryptDatabaseAsync env random36 promise inputPath outputPath hexKey sink s =
     (case ensure_worker env s of
        (s1, fx) \<Rightarrow>
          if worker s1 = None then
            (s1, fx @ [Resolved promise
                         \<lparr>success = False,
                          error = Some (case initError s1 of
                                          None \<Rightarrow> msg_worker_not_started
                                        | Some e \<Rightarrow> if e = [] then msg_worker_not_started else e)\<rparr>])
          else
            (let tid = generateId random36 in
             (s1\<lparr>tasks := (tasks s1)(tid \<mapsto> \<lparr>resolve = promise, task_onProgress = sink\<rparr>)\<rparr>,
              fx @ [Posted (DecryptRequest tid inputPath outputPath hexKey)])))"

subsection \<open>Runs of the service\<close>

text \<open>
  What can happen to the service after its construction: an event of the worker, or a call
  of \<open>decryptDatabaseAsync\<close> (with the surroundings and the random draw of that moment).
\<close>

datatype event =
    WorkerMessage message
  | WorkerError js_error
  | WorkerExit int
  | Submit host_env string nat string string string "nat option"

fun step :: "event \<Rightarrow> NativeDecryptService \<Rightarrow> NativeDecryptService \<times> effect list" where
  "step (WorkerMessage msg) s = handleWorkerMessage msg s"
| "step (WorkerError err) s = (on_worker_error err s, [])"
| "step (WorkerExit code) s = (on_worker_exit code s, [])"
| "step (Submit env random36 promise inputPath outputPath hexKey sink) s =
     decryptDatabaseAsync env random36 promise inputPath outputPath hexKey sink s"

fun run :: "event list \<Rightarrow> NativeDecryptService \<times> effect list \<Rightarrow> NativeDecryptService \<times> effect list" where
  "run [] sfx = sfx"
| "run (ev # evs) sfx =
     (case step ev (fst sfx) of (s', fx') \<Rightarrow> run evs (s', snd sfx @ fx'))"

text \<open>
  Does the call store its task under an id that is pending at that moment? And does some
  call of a run do so?
\<close>

definition reuses_pending_id :: "event \<Rightarrow> NativeDecryptService \<Rightarrow> bool" where
  "reuses_pending_id ev s =
     (case ev of
        Submit env random36 promise inputPath outputPath hexKey sink \<Rightarrow>
          (case ensure_worker env s of
             (s1, fx) \<Rightarrow> worker s1 \<noteq> None \<and> tasks s1 (generateId random36) \<noteq> None)
      | _ \<Rightarrow> False)"

fun some_submit_reuses_pending_id :: "event list \<Rightarrow> NativeDecryptService \<Rightarrow> bool" where
  "some_submit_reuses_pending_id [] s = False"
| "some_submit_reuses_pending_id (ev # evs) s =
     (reuses_pending_id ev s \<or> some_submit_reuses_pending_id evs (fst (step ev s)))"

text \<open>The ids generated for the calls of a run, in order.\<close>

fun submitted_ids :: "event list \<Rightarrow> string list" where
  "submitted_ids [] = []"
| "submitted_ids (Submit env random36 promise inputPath outputPath hexKey sink # evs) =
     generateId random36 # submitted_ids evs"
| "submitted_ids (ev # evs) = submitted_ids evs"

text \<open>
  The specification's pending tasks, kept from the events alone: a submit is accepted when
  the service has a worker once \<open>ensure_worker\<close> has run; the id of an accepted submit is
  pending until a success or error message with that id is handled.
\<close>

definition accepted :: "host_env \<Rightarrow> NativeDecryptService \<Rightarrow> bool" where
  "accepted env s = (worker (fst (ensure_worker env s)) \<noteq> None)"

fun answered_id :: "event \<Rightarrow> string option" where
  "answered_id (WorkerMessage (Success tid)) = Some tid"
| "answered_id (WorkerMessage (Error tid err)) = tid"
| "answered_id ev = None"

fun spec_pending :: "event list \<Rightarrow> NativeDecryptService \<Rightarrow> string set \<Rightarrow> string set" where
  "spec_pending [] s P = P"
| "spec_pending (ev # evs) s P =
     spec_pending evs (fst (step ev s))
       (case ev of
          Submit env random36 promise inputPath outputPath hexKey sink \<Rightarrow>
            if accepted env s then insert (generateId random36) P else P
        | _ \<Rightarrow> (case answered_id ev of None \<Rightarrow> P | Some tid \<Rightarrow> P - {tid}))"

text \<open>
  The specification's live worker, kept from the events and the effects alone: a worker is
  alive from the moment one is started until an exit with a non-zero code is handled.
\<close>

fun is_Started :: "effect \<Rightarrow> bool" where
  "is_Started (Started w) = True"
| "is_Started fx = False"

fun spec_worker_alive :: "event list \<Rightarrow> NativeDecryptService \<Rightarrow> bool \<Rightarrow> bool" where
  "spec_worker_alive [] s alive = alive"
| "spec_worker_alive (ev # evs) s alive =
     spec_worker_alive evs (fst (step ev s))
       (if list_ex is_Started (snd (step ev s)) then True
        else case ev of WorkerExit code \<Rightarrow> alive \<and> code = 0 | _ \<Rightarrow> alive)"

fun abnormal_exit :: "event \<Rightarrow> bool" where
  "abnormal_exit (WorkerExit code) = (code \<noteq> 0)"
| "abnormal_exit ev = False"


subsection \<open>Sample surroundings of the service\<close>

definition sample_host :: host_env where
  "sample_host =
     \<lparr>dll_candidates = [''C:/app/resources/wcdb_decrypt.dll''],
      worker_candidates = [''C:/app/electron/workers/decryptWorker.js''],
      fs_existsSync = (\<lambda>p. True),
      new_Worker_throws = None\<rparr>"

definition sample_submit :: "string \<Rightarrow> nat \<Rightarrow> event" where
  "sample_submit random36 promise =
     Submit sample_host random36 promise ''C:/in/a.db'' ''C:/out/a.db'' ''00ff'' None"

subsection \<open>What every run of the service keeps\<close>

text \<open>
  The flag \<open>initialized\<close> is set exactly while a worker object is held, and a worker object
  is only held after one was started.
\<close>

definition service_inv :: "NativeDecryptService \<times> effect list \<Rightarrow> bool" where
  "service_inv sfx \<longleftrightarrow>
     (initialized (fst sfx) \<longleftrightarrow> worker (fst sfx) \<noteq> None) \<and>
     (worker (fst sfx) \<noteq> None \<longrightarrow> (\<exists>w. Started w \<in> set (snd sfx)))"

section \<open>Theorems\<close>

subsection \<open>The bounded cache\<close>

lemma Map_keys_append: "Map_keys (m @ [(k, v)]) = Map_keys m @ [k]"
  by (simp add: Map_keys_def)

lemma Map_keys_delete: "Map_keys (Map_delete k m) = removeAll k (Map_keys m)"
  by (induction m) (auto simp: Map_keys_def Map_delete_def)

lemma Map_keys_length: "length (Map_keys m) = length m"
  by (simp add: Map_keys_def)

lemma Map_has_iff: "Map_has m k \<longleftrightarrow> k \<in> set (Map_keys m)"
  by (simp add: Map_has_def Map_keys_def map_of_eq_None_iff)

lemma Map_set_absent: "k \<notin> set (Map_keys m) \<Longrightarrow> Map_set k v m = m @ [(k, v)]"
  by (induction m) (auto simp: Map_keys_def)

lemma Map_set_after_delete: "Map_set k v (Map_delete k m) = Map_delete k m @ [(k, v)]"
  by (rule Map_set_absent) (simp add: Map_keys_delete)

lemma Map_delete_length_present:
  assumes "k \<in> set (Map_keys m)"
  shows "length (Map_delete k m) < length m"
proof -
  have "length (removeAll k (Map_keys m)) < length (Map_keys m)"
    using assms by (simp add: length_removeAll_less)
  then show ?thesis by (simp add: Map_keys_delete [symmetric] Map_keys_length)
qed

lemma Map_delete_first:
  assumes "distinct (Map_keys (e # m))"
  shows "Map_delete (fst e) (e # m) = m"
proof -
  from assms have "fst e \<notin> set (map fst m)" by (simp add: Map_keys_def)
  then have "\<forall>x \<in> set m. fst x \<noteq> fst e" by (metis image_eqI set_map)
  then show ?thesis by (simp add: Map_delete_def)
qed

lemma Map_first_key_in: "m \<noteq> [] \<Longrightarrow> Map_first_key m \<in> set (Map_keys m)"
  by (cases m) (auto simp: Map_first_key_def Map_keys_def)

lemma lru_set_cache_cases:
  "cache (lru_set key val c) =
     (if Map_has (cache c) key then Map_delete key (cache c) @ [(key, val)]
      else if real (length (cache c)) \<ge> capacity c \<and> Map_first_key (cache c) \<noteq> Undefined
        then Map_delete (Map_first_key (cache c)) (cache c) @ [(key, val)]
      else cache c @ [(key, val)])"
  by (auto simp: lru_set_def Let_def Map_set_after_delete Map_has_iff Map_set_absent Map_keys_delete)

lemma lru_set_capacity: "capacity (lru_set key val c) = capacity c"
  by (simp add: lru_set_def Let_def)

lemma lru_set_inv:
  assumes inv: "lru_inv c" and key: "key \<noteq> Undefined" and cap: "0 < capacity c"
  shows "lru_inv (lru_set key val c)"
proof -
  let ?m = "cache c"
  from inv have d: "distinct (Map_keys ?m)" and u: "Undefined \<notin> set (Map_keys ?m)"
    and n: "int (length ?m) \<le> \<lceil>capacity c\<rceil>" by (auto simp: lru_inv_def)
  show ?thesis
  proof (cases "Map_has ?m key")
    case True
    then have c: "cache (lru_set key val c) = Map_delete key ?m @ [(key, val)]"
      by (simp add: lru_set_cache_cases)
    from True have "length (Map_delete key ?m) < length ?m"
      by (simp add: Map_has_iff Map_delete_length_present)
    with n d u key show ?thesis
      unfolding lru_inv_def lru_set_capacity c
      by (simp add: Map_keys_append Map_keys_delete distinct_removeAll)
  next
    case absent: False
    show ?thesis
    proof (cases "real (length ?m) \<ge> capacity c")
      case full: True
      with cap have ne: "?m \<noteq> []" by auto
      then have fin: "Map_first_key ?m \<in> set (Map_keys ?m)" by (rule Map_first_key_in)
      with u have fk: "Map_first_key ?m \<noteq> Undefined" by auto
      with absent full have c: "cache (lru_set key val c) = Map_delete (Map_first_key ?m) ?m @ [(key, val)]"
        by (simp add: lru_set_cache_cases)
      from fin have "length (Map_delete (Map_first_key ?m) ?m) < length ?m"
        by (rule Map_delete_length_present)
      with n d u key absent show ?thesis
        unfolding lru_inv_def lru_set_capacity c
        by (simp add: Map_keys_append Map_keys_delete distinct_removeAll Map_has_iff)
    next
      case room: False
      with absent have c: "cache (lru_set key val c) = ?m @ [(key, val)]"
        by (simp add: lru_set_cache_cases)
      from room have "real (length ?m) < capacity c" by simp
      then have "int (length ?m) < \<lceil>capacity c\<rceil>" by (simp add: less_ceiling_iff)
      with d u key absent show ?thesis
        unfolding lru_inv_def lru_set_capacity c
        by (simp add: Map_keys_append Map_has_iff)
    qed
  qed
qed

lemma lru_get_inv:
  assumes inv: "lru_inv c"
  shows "lru_inv (snd (lru_get key c))"
proof (cases "Map_get (cache c) key")
  case None
  with inv show ?thesis by (simp add: lru_get_def)
next
  case (Some val)
  then have k: "key \<in> set (Map_keys (cache c))"
    by (simp add: Map_get_def Map_has_iff [symmetric] Map_has_def)
  then have "length (Map_delete key (cache c)) < length (cache c)"
    by (rule Map_delete_length_present)
  moreover from k inv have "key \<noteq> Undefined"
    by (auto simp: lru_inv_def)
  ultimately show ?thesis using inv Some
    by (simp add: lru_get_def lru_inv_def Map_set_after_delete Map_keys_append Map_keys_delete
        distinct_removeAll)
qed

lemma lru_clear_inv: "0 < capacity c \<Longrightarrow> lru_inv (lru_clear c)"
  by (simp add: lru_clear_def lru_inv_def Map_keys_def)

lemma lru_apply_capacity: "capacity (lru_apply x c) = capacity c"
  by (cases x) (auto simp: lru_get_def lru_set_def lru_clear_def Let_def split: option.splits)

lemma lru_apply_inv:
  "lru_inv c \<Longrightarrow> 0 < capacity c \<Longrightarrow> op_key x \<noteq> Some Undefined \<Longrightarrow> lru_inv (lru_apply x c)"
  by (cases x) (auto simp: lru_set_inv lru_get_inv lru_clear_inv)

lemma lru_run_inv:
  "lru_inv c \<Longrightarrow> 0 < capacity c \<Longrightarrow> \<forall>x \<in> set xs. op_key x \<noteq> Some Undefined \<Longrightarrow>
   lru_inv (lru_run xs c) \<and> capacity (lru_run xs c) = capacity c"
  by (induction xs arbitrary: c) (auto simp: lru_apply_inv lru_apply_capacity)

lemma LRUCache_new_inv: "0 < cap \<Longrightarrow> lru_inv (LRUCache_new cap)"
  by (simp add: LRUCache_new_def lru_inv_def Map_keys_def)

lemma lru_evicts_first:
  assumes inv: "lru_inv c" and cap: "0 < capacity c"
    and absent: "\<not> lru_has key c" and full: "real (lru_size c) \<ge> capacity c"
  shows "cache c \<noteq> [] \<and> cache (lru_set key val c) = tl (cache c) @ [(key, val)]"
proof -
  from full cap have ne: "cache c \<noteq> []" by (auto simp: lru_size_def)
  then obtain e m where em: "cache c = e # m" by (cases "cache c") auto
  from inv em have "fst e \<noteq> Undefined" "distinct (Map_keys (e # m))"
    by (auto simp: lru_inv_def Map_keys_def)
  then have "Map_first_key (cache c) \<noteq> Undefined"
    and "Map_delete (Map_first_key (cache c)) (cache c) = m"
    using Map_delete_first[of e m] by (simp_all add: em Map_first_key_def Map_keys_def)
  with absent full show ?thesis
    by (simp add: lru_set_cache_cases lru_has_def lru_size_def em)
qed

lemma recency_touch_last:
  assumes ok: "sorted_wrt (\<lambda>a b. T a < T b) ks" "list_all (\<lambda>k. T k \<le> t) ks"
  shows "sorted_wrt (\<lambda>a b. (T(k := Suc t)) a < (T(k := Suc t)) b) (removeAll k ks @ [k]) \<and>
         list_all (\<lambda>a. (T(k := Suc t)) a \<le> Suc t) (removeAll k ks @ [k])"
proof -
  have s: "sorted_wrt (\<lambda>a b. T a < T b) (removeAll k ks)"
    using ok(1) by (simp add: removeAll_filter_not_eq sorted_wrt_filter)
  have "sorted_wrt (\<lambda>a b. (T(k := Suc t)) a < (T(k := Suc t)) b) (removeAll k ks)"
    by (rule sorted_wrt_mono_rel [OF _ s]) auto
  moreover have "\<forall>a \<in> set (removeAll k ks). T a \<le> t"
    using ok(2) by (auto simp: list_all_iff)
  ultimately show ?thesis
    by (auto simp: sorted_wrt_append list_all_iff less_Suc_eq_le intro: le_SucI)
qed

lemma recency_drop_first:
  assumes "sorted_wrt (\<lambda>a b. T a < T b) ks" "list_all (\<lambda>k. T k \<le> t) ks"
  shows "sorted_wrt (\<lambda>a b. T a < T b) (removeAll q ks) \<and> list_all (\<lambda>k. T k \<le> t) (removeAll q ks)"
  using assms by (auto simp: removeAll_filter_not_eq sorted_wrt_filter list_all_iff)

lemma lru_set_keys_cases:
  "Map_keys (cache (lru_set key val c)) =
     removeAll key
       (if \<not> Map_has (cache c) key \<and> real (length (cache c)) \<ge> capacity c \<and>
           Map_first_key (cache c) \<noteq> Undefined
        then removeAll (Map_first_key (cache c)) (Map_keys (cache c))
        else Map_keys (cache c)) @ [key]"
  by (auto simp: lru_set_cache_cases Map_keys_append Map_keys_delete Map_has_iff)

lemma lru_get_keys_hit:
  "lru_has key c \<Longrightarrow>
   Map_keys (cache (snd (lru_get key c))) = removeAll key (Map_keys (cache c)) @ [key]"
  by (auto simp: lru_get_def lru_has_def Map_has_def Map_get_def Map_set_after_delete
      Map_keys_append Map_keys_delete)

lemma lru_get_miss: "\<not> lru_has key c \<Longrightarrow> snd (lru_get key c) = c"
  by (simp add: lru_get_def lru_has_def)

lemma recency_step:
  assumes "recency_ok c t T"
  shows "recency_ok (lru_apply x c) (Suc t)
           (case spec_touches x c of None \<Rightarrow> T | Some k \<Rightarrow> T(k := Suc t))"
proof (cases x)
  case (Get k)
  show ?thesis
  proof (cases "lru_has k c")
    case True
    with assms Get recency_touch_last [of T "Map_keys (cache c)" t k] show ?thesis
      by (simp add: recency_ok_def lru_get_keys_hit)
  next
    case False
    with assms Get show ?thesis
      by (auto simp: recency_ok_def lru_get_miss list_all_iff)
  qed
next
  case (Set k v)
  let ?ks = "if \<not> Map_has (cache c) k \<and> real (length (cache c)) \<ge> capacity c \<and>
                Map_first_key (cache c) \<noteq> Undefined
             then removeAll (Map_first_key (cache c)) (Map_keys (cache c))
             else Map_keys (cache c)"
  from assms have "sorted_wrt (\<lambda>a b. T a < T b) ?ks \<and> list_all (\<lambda>k. T k \<le> t) ?ks"
    using recency_drop_first [of T "Map_keys (cache c)" t "Map_first_key (cache c)"]
    by (simp add: recency_ok_def)
  then have "sorted_wrt (\<lambda>a b. (T(k := Suc t)) a < (T(k := Suc t)) b) (removeAll k ?ks @ [k]) \<and>
         list_all (\<lambda>a. (T(k := Suc t)) a \<le> Suc t) (removeAll k ?ks @ [k])"
    using recency_touch_last [of T ?ks t k] by blast
  then show ?thesis
    unfolding Set recency_ok_def by (simp only: lru_apply.simps spec_touches.simps
        lru_set_keys_cases option.case)
next
  case Clear
  then show ?thesis by (simp add: recency_ok_def lru_clear_def Map_keys_def)
qed

lemma recency_run:
  "recency_ok c t T \<Longrightarrow>
   recency_ok (lru_run xs c) (t + length xs) (spec_last_touch xs c t T)"
proof (induction xs arbitrary: c t T)
  case Nil
  then show ?case by simp
next
  case (Cons x xs)
  from Cons.IH [OF recency_step [OF Cons.prems, of x]] show ?case by simp
qed

lemma recency_new: "recency_ok (LRUCache_new cap) 0 T"
  by (simp add: recency_ok_def LRUCache_new_def Map_keys_def)

lemma keys_sorted_by_last_touch:
  "sorted_wrt (\<lambda>a b. spec_last_touch ops (LRUCache_new cap) 0 T a < spec_last_touch ops (LRUCache_new cap) 0 T b)
     (Map_keys (cache (lru_run ops (LRUCache_new cap))))"
  using recency_run [OF recency_new, of ops cap T] by (simp add: recency_ok_def)

lemma lru_has_iff: "lru_has k c \<longleftrightarrow> k \<in> set (Map_keys (cache c))"
  by (simp add: lru_has_def Map_has_iff)

text \<open>
  C10 (as amended). For every LRUCache constructed with a capacity that is a positive
  whole number, and every sequence of get/set/clear operations none of whose keys is
  \<^verbatim>\<open>undefined\<close>: the size of the cache never exceeds the capacity; the entries stand in
  the order in which their keys were last touched (stored, or read successfully), the
  least recently touched first; and when the cache is full and \<open>set\<close> is called with a
  key that is not cached, the entry evicted is the first one, whose last touch is earlier
  than that of every other entry, while all other entries stay, the new entry goes last
  and the size stays the same.
\<close>

theorem C10_lru_bounded_and_evicts_oldest:
  assumes cap: "0 < cap" "cap \<in> \<int>"
    and keys: "\<forall>x \<in> set ops. op_key x \<noteq> Some Undefined"
    and c: "c = lru_run ops (LRUCache_new cap)"
    and T: "T = spec_last_touch ops (LRUCache_new cap) 0 (\<lambda>k. 0)"
  shows "real (lru_size c) \<le> cap \<and>
         sorted_wrt (\<lambda>a b. T a < T b) (Map_keys (cache c)) \<and>
         (\<forall>key val. key \<noteq> Undefined \<and> \<not> lru_has key c \<and> real (lru_size c) \<ge> cap \<longrightarrow>
            cache c \<noteq> [] \<and> cache (lru_set key val c) = tl (cache c) @ [(key, val)] \<and>
            lru_size (lru_set key val c) = lru_size c \<and>
            \<not> lru_has (Map_first_key (cache c)) (lru_set key val c) \<and>
            (\<forall>k \<in> set (Map_keys (cache c)). k \<noteq> Map_first_key (cache c) \<longrightarrow>
               T (Map_first_key (cache c)) < T k \<and> lru_has k (lru_set key val c)))"
proof -
  have capn: "capacity (LRUCache_new cap :: ('a, 'b) LRUCache) = cap"
    by (simp add: LRUCache_new_def)
  from cap(1) have "lru_inv (LRUCache_new cap :: ('a, 'b) LRUCache)"
    by (rule LRUCache_new_inv)
  with lru_run_inv[of "LRUCache_new cap" ops] keys cap(1) c capn
  have inv: "lru_inv c" and cc: "capacity c = cap" by auto
  from cap(2) obtain z where z: "cap = of_int z" by (auto elim: Ints_cases)
  from inv have "int (length (cache c)) \<le> \<lceil>cap\<rceil>" by (simp add: lru_inv_def cc)
  then have bound: "real (lru_size c) \<le> cap" by (simp add: z lru_size_def)
  have order: "sorted_wrt (\<lambda>a b. T a < T b) (Map_keys (cache c))"
    unfolding c T by (rule keys_sorted_by_last_touch)
  have ev: "cache c \<noteq> [] \<and> cache (lru_set key val c) = tl (cache c) @ [(key, val)] \<and>
            lru_size (lru_set key val c) = lru_size c \<and>
            \<not> lru_has (Map_first_key (cache c)) (lru_set key val c) \<and>
            (\<forall>k \<in> set (Map_keys (cache c)). k \<noteq> Map_first_key (cache c) \<longrightarrow>
               T (Map_first_key (cache c)) < T k \<and> lru_has k (lru_set key val c))"
    if absent: "\<not> lru_has key c" and full: "real (lru_size c) \<ge> cap" for key val
  proof -
    from lru_evicts_first[OF inv, of key val] cap(1) that cc
    have ne: "cache c \<noteq> []" and after: "cache (lru_set key val c) = tl (cache c) @ [(key, val)]"
      by auto
    from ne obtain e m where em: "cache c = e # m" by (cases "cache c") auto
    have first: "Map_first_key (cache c) = fst e" by (simp add: em Map_first_key_def Map_keys_def)
    have ks: "Map_keys (cache c) = fst e # Map_keys m" by (simp add: em Map_keys_def)
    have ks': "Map_keys (cache (lru_set key val c)) = Map_keys m @ [key]"
      by (simp add: after em Map_keys_def)
    from order have lt: "\<forall>k \<in> set (Map_keys m). T (fst e) < T k" by (simp add: ks)
    then have notin: "fst e \<notin> set (Map_keys m)" by auto
    from absent have "fst e \<noteq> key" by (auto simp: lru_has_iff ks)
    with notin have gone: "\<not> lru_has (Map_first_key (cache c)) (lru_set key val c)"
      by (simp add: lru_has_iff ks' first)
    have others: "\<forall>k \<in> set (Map_keys (cache c)). k \<noteq> Map_first_key (cache c) \<longrightarrow>
               T (Map_first_key (cache c)) < T k \<and> lru_has k (lru_set key val c)"
      using lt by (auto simp: ks first lru_has_iff ks')
    from ne after gone others show ?thesis by (simp add: lru_size_def)
  qed
  from bound order ev show ?thesis by blast
qed

text \<open>
  The theorem at capacity 2: after a, b are stored and a is read, a was last touched by
  operation 3 and b by operation 2, b is first, and storing c removes b, not a.
\<close>

theorem C10_lru_witness:
  "(0::real) < 2 \<and> (2::real) \<in> \<int> \<and>
   real (lru_size (lru_run [Set (Key ''a'') (1::nat), Set (Key ''b'') 2, Get (Key ''a'')]
      (LRUCache_new 2))) \<le> 2 \<and>
   spec_last_touch [Set (Key ''a'') (1::nat), Set (Key ''b'') 2, Get (Key ''a'')]
      (LRUCache_new 2) 0 (\<lambda>k. 0) (Key ''a'') = 3 \<and>
   spec_last_touch [Set (Key ''a'') (1::nat), Set (Key ''b'') 2, Get (Key ''a'')]
      (LRUCache_new 2) 0 (\<lambda>k. 0) (Key ''b'') = 2 \<and>
   Map_first_key (cache (lru_run [Set (Key ''a'') (1::nat), Set (Key ''b'') 2, Get (Key ''a'')]
      (LRUCache_new 2))) = Key ''b'' \<and>
   \<not> lru_has (Key ''c'')
      (lru_run [Set (Key ''a'') (1::nat), Set (Key ''b'') 2, Get (Key ''a'')] (LRUCache_new 2)) \<and>
   \<not> lru_has (Key ''b'')
      (lru_set (Key ''c'') 3
        (lru_run [Set (Key ''a'') (1::nat), Set (Key ''b'') 2, Get (Key ''a'')] (LRUCache_new 2))) \<and>
   cache (lru_set (Key ''c'') 3
      (lru_run [Set (Key ''a'') (1::nat), Set (Key ''b'') 2, Get (Key ''a'')] (LRUCache_new 2)))
     = [(Key ''a'', 1), (Key ''c'', 3)]"
proof -
  let ?ops = "[Set (Key ''a'') (1::nat), Set (Key ''b'') 2, Get (Key ''a'')]"
  let ?c = "lru_run ?ops (LRUCache_new 2)"
  let ?T = "spec_last_touch ?ops (LRUCache_new 2) 0 (\<lambda>k. 0)"
  have run: "cache ?c = [(Key ''b'', 2), (Key ''a'', 1)]"
    by (simp add: lru_set_def lru_get_def LRUCache_new_def Map_has_def Map_get_def
        Map_first_key_def Map_delete_def Map_keys_def)
  have Ta: "?T (Key ''a'') = 3" and Tb: "?T (Key ''b'') = 2"
    by (simp_all add: lru_has_def lru_set_def lru_get_def LRUCache_new_def Map_has_def Map_get_def
        Map_first_key_def Map_delete_def Map_keys_def)
  have fk: "Map_first_key (cache ?c) = Key ''b''"
    unfolding run by (simp add: Map_first_key_def Map_keys_def)
  have h1: "(0::real) < 2" by simp
  have h2: "(2::real) \<in> \<int>" by simp
  have h3: "\<forall>x \<in> set ?ops. op_key x \<noteq> Some Undefined" by simp
  have absent: "\<not> lru_has (Key ''c'') ?c" unfolding lru_has_def run by (simp add: Map_has_def)
  have full: "real (lru_size ?c) \<ge> 2" unfolding lru_size_def run by simp
  note t = C10_lru_bounded_and_evicts_oldest [OF h1 h2 h3 refl refl]
  from t [THEN conjunct1] have b: "real (lru_size ?c) \<le> 2" .
  from t [THEN conjunct2, THEN conjunct2, rule_format, of "Key ''c''" 3] absent full
  have after: "cache (lru_set (Key ''c'') 3 ?c) = tl (cache ?c) @ [(Key ''c'', 3)]"
    and gone: "\<not> lru_has (Map_first_key (cache ?c)) (lru_set (Key ''c'') 3 ?c)"
    by simp_all
  from after have e: "cache (lru_set (Key ''c'') 3 ?c) = [(Key ''a'', 1), (Key ''c'', 3)]"
    unfolding run by simp
  from gone have g: "\<not> lru_has (Key ''b'') (lru_set (Key ''c'') 3 ?c)"
    unfolding fk .
  from h1 h2 b Ta Tb fk absent g e show ?thesis by (intro conjI)
qed

text \<open>
  The claim as first stated fails in two ways. With capacity 1, an entry stored under the
  key \<^verbatim>\<open>undefined\<close> is never evicted (the guard \<^verbatim>\<open>firstKey !== undefined\<close> skips the
  deletion), so a second key brings the size to 2. With the positive capacity 1/2, the
  first \<open>set\<close> brings the size to 1.
\<close>

theorem C10_lru_counterexample:
  "real (lru_size (lru_run [Set Undefined (1::nat), Set (Key ''a'') 2] (LRUCache_new 1))) > 1 \<and>
   cache (lru_run [Set Undefined (1::nat), Set (Key ''a'') 2] (LRUCache_new 1))
     = [(Undefined, 1), (Key ''a'', 2)] \<and>
   (0::real) < 1 / 2 \<and>
   real (lru_size (lru_run [Set (Key ''a'') (1::nat)] (LRUCache_new (1 / 2)))) > 1 / 2"
  by (simp add: lru_size_def lru_set_def LRUCache_new_def Map_has_def Map_first_key_def
      Map_delete_def Map_keys_def)

subsection \<open>The worker: text helpers\<close>

declare decimal_digits.simps [simp del]









lemma buffer_after_write_512:
  "length (buffer_after_write written) = 512 \<and>
   take (min 512 (length written)) (buffer_after_write written) = take 512 written"
  by (auto simp: buffer_after_write_def min_def)

lemma Buffer_toString_utf8_examples:
  "Buffer_toString_utf8 [CHR 0xC3, CHR 0xA9] = [CHR 0xC3, CHR 0xA9]"
  "Buffer_toString_utf8 [CHR 0xE6, CHR 0x9C, CHR 0xAA] = [CHR 0xE6, CHR 0x9C, CHR 0xAA]"
  "Buffer_toString_utf8 [CHR 0xF0, CHR 0x9F, CHR 0x98, CHR 0x80]
     = [CHR 0xF0, CHR 0x9F, CHR 0x98, CHR 0x80]"
  "Buffer_toString_utf8 [CHR 0xC0, CHR 0x80] = REPLACEMENT_CHARACTER @ REPLACEMENT_CHARACTER"
  "Buffer_toString_utf8 [CHR 0xED, CHR 0xA0, CHR 0x80]
     = REPLACEMENT_CHARACTER @ REPLACEMENT_CHARACTER @ REPLACEMENT_CHARACTER"
  "Buffer_toString_utf8 [CHR 0xE0, CHR 0x80, CHR ''a'']
     = REPLACEMENT_CHARACTER @ REPLACEMENT_CHARACTER @ ''a''"
  "Buffer_toString_utf8 [CHR 0xF0, CHR 0x90, CHR 0x80] = REPLACEMENT_CHARACTER"
  "Buffer_toString_utf8 [CHR 0xC3, CHR ''a''] = REPLACEMENT_CHARACTER @ ''a''"
  "Buffer_toString_utf8 [CHR 0xF4, CHR 0x90, CHR 0x80, CHR 0x80]
     = REPLACEMENT_CHARACTER @ REPLACEMENT_CHARACTER @ REPLACEMENT_CHARACTER @ REPLACEMENT_CHARACTER"
  "Buffer_toString_utf8 [CHR 0x80] = REPLACEMENT_CHARACTER"
  by (simp_all add: Buffer_toString_utf8_def utf8_step_def utf8_lead_def utf8_idle_def)




subsection \<open>The worker: throttle\<close>

lemma run_callbacks_append:
  "run_callbacks tid (xs @ ys) l =
     (fst (run_callbacks tid ys (fst (run_callbacks tid xs l))),
      snd (run_callbacks tid xs l) @ snd (run_callbacks tid ys (fst (run_callbacks tid xs l))))"
  by (induction xs arbitrary: l) (auto split: prod.splits)

lemma run_callbacks_single:
  "run_callbacks tid [x] l = onProgress tid x l"
  by (simp split: prod.splits)

lemma lastUpdate_before_Suc:
  assumes "i < length calls"
  shows "lastUpdate_before tid calls (Suc i) =
           fst (onProgress tid (calls ! i) (lastUpdate_before tid calls i))"
  using assms
  by (simp add: lastUpdate_before_def take_Suc_conv_app_nth run_callbacks_append
      run_callbacks_single)

lemma posted_take_Suc:
  assumes "i < length calls"
  shows "snd (run_callbacks tid (take (Suc i) calls) 0) =
           snd (run_callbacks tid (take i calls) 0) @ posted_at tid calls i"
  using assms
  by (simp add: posted_at_def lastUpdate_before_def take_Suc_conv_app_nth run_callbacks_append
      run_callbacks_single)

lemma posted_prefix:
  "n \<le> length calls \<Longrightarrow>
   snd (run_callbacks tid (take n calls) 0) = concat (map (posted_at tid calls) [0..<n])"
  by (induction n) (simp_all add: posted_take_Suc)

lemma posted_all:
  "snd (run_callbacks tid calls 0) = concat (map (posted_at tid calls) [0..<length calls])"
  using posted_prefix [of "length calls" calls tid] by simp

text \<open>
  C1 (as amended). For every sequence of progress-callback invocations within one decrypt
  task, the i-th invocation posts a progress message exactly when current = 1, or
  current = total, or MORE than 100 milliseconds lie between the clock and \<open>lastUpdate\<close>;
  \<open>lastUpdate\<close> starts at 0 and is set to the clock on every emission and on nothing else;
  a suppressed invocation posts nothing, and the messages of the whole run are those of
  its invocations in order.
\<close>

theorem C1_throttle_emits_when_forced_or_over_100ms:
  assumes i: "i < length calls" and call: "calls ! i = (now, current, total')"
  shows "posted_at tid calls i =
           (if current = 1 \<or> current = total' \<or> now - lastUpdate_before tid calls i > 100
            then [Progress tid current total'] else []) \<and>
         lastUpdate_before tid calls (Suc i) =
           (if posted_at tid calls i \<noteq> [] then now else lastUpdate_before tid calls i) \<and>
         lastUpdate_before tid calls 0 = 0 \<and>
         snd (run_callbacks tid calls 0) = concat (map (posted_at tid calls) [0..<length calls])"
proof -
  have p: "posted_at tid calls i =
           (if current = 1 \<or> current = total' \<or> now - lastUpdate_before tid calls i > 100
            then [Progress tid current total'] else [])"
    by (auto simp: posted_at_def call onProgress_def)
  have l: "lastUpdate_before tid calls (Suc i) =
           (if posted_at tid calls i \<noteq> [] then now else lastUpdate_before tid calls i)"
    unfolding lastUpdate_before_Suc [OF i] by (auto simp: posted_at_def call onProgress_def)
  have z: "lastUpdate_before tid calls 0 = 0" by (simp add: lastUpdate_before_def)
  from p l z posted_all show ?thesis by blast
qed

text \<open>
  The theorem at three invocations: the second comes exactly 100 ms after the first and
  is suppressed, the third comes 101 ms after the first and is posted.
\<close>

theorem C1_throttle_witness:
  "(2::nat) < length [(1000, 1, 10), (1100, 2, 10), (1101, 3, 10::int)] \<and>
   lastUpdate_before ''t'' [(1000, 1, 10), (1100, 2, 10), (1101, 3, 10)] 2 = 1000 \<and>
   posted_at ''t'' [(1000, 1, 10), (1100, 2, 10), (1101, 3, 10)] 2 = [Progress ''t'' 3 10] \<and>
   lastUpdate_before ''t'' [(1000, 1, 10), (1100, 2, 10), (1101, 3, 10)] 3 = 1101 \<and>
   snd (run_callbacks ''t'' [(1000, 1, 10), (1100, 2, 10), (1101, 3, 10)] 0)
     = [Progress ''t'' 1 10, Progress ''t'' 3 10]"
proof -
  let ?calls = "[(1000, 1, 10), (1100, 2, 10), (1101, 3, 10)] :: (int \<times> int \<times> int) list"
  have i: "(2::nat) < length ?calls" by simp
  have c: "?calls ! 2 = (1101, 3, 10)" by simp
  have l: "lastUpdate_before ''t'' ?calls 2 = 1000"
    by (simp add: lastUpdate_before_def onProgress_def numeral_2_eq_2)
  from C1_throttle_emits_when_forced_or_over_100ms [OF i c, of "''t''"] l
  have "posted_at ''t'' ?calls 2 = [Progress ''t'' 3 10]"
    and "lastUpdate_before ''t'' ?calls (Suc 2) = 1101"
    and "snd (run_callbacks ''t'' ?calls 0) = concat (map (posted_at ''t'' ?calls) [0..<length ?calls])"
    by simp_all
  moreover have "concat (map (posted_at ''t'' ?calls) [0..<length ?calls])
      = [Progress ''t'' 1 10, Progress ''t'' 3 10]"
    by (simp add: posted_at_def lastUpdate_before_def onProgress_def upt_rec numeral_2_eq_2)
  moreover have "Suc 2 = 3" by simp
  ultimately show ?thesis using i l by (simp del: run_callbacks.simps length_Cons)
qed

text \<open>
  The claim as first stated (emission when at least 100 ms have elapsed) fails at the
  second of two invocations: exactly 100 ms after the last emission, with current = 2 and
  total = 10, nothing is posted.
\<close>

theorem C1_throttle_counterexample:
  "\<not> ((posted_at ''t'' [(1000, 1, 10), (1100, 2, 10)] 1 \<noteq> []) \<longleftrightarrow>
       ((2::int) = 1 \<or> (2::int) = 10 \<or>
        1100 - lastUpdate_before ''t'' [(1000, 1, 10), (1100, 2, 10)] 1 \<ge> 100))"
  by (simp add: lastUpdate_before_def posted_at_def onProgress_def)

subsection \<open>The worker: message handler\<close>

lemma try_block_native_returned:
  assumes dir: "existsSync env (dirname env outputPath) \<or> mkdirSync env (dirname env outputPath) = None"
    and reg: "koffi_register_throws env = None"
    and out: "outcome (Wcdb_DecryptDatabaseWithProgress env inputPath outputPath hexKey) = Inr code"
  shows "decrypt_try_block env tid inputPath outputPath hexKey w =
     (let w3 = w\<lparr>registered := removeAll (next_handle w) (next_handle w # registered w),
                  next_handle := Suc (next_handle w),
                  outbox := outbox w @ snd (run_callbacks tid
                     (callbacks (Wcdb_DecryptDatabaseWithProgress env inputPath outputPath hexKey)) 0)\<rparr>
      in if code = 0 then (postMessage (Success tid) w3, None)
         else case Wcdb_GetLastErrorMsg env of
                Inl e \<Rightarrow> (w3, Some e)
              | Inr written \<Rightarrow>
                  (postMessage (Error (Some tid)
                     (if replace_trailing_nuls (Buffer_toString_utf8 (buffer_after_write written)) \<noteq> []
                      then replace_trailing_nuls (Buffer_toString_utf8 (buffer_after_write written))
                      else ''ErrorCode: '' @ Number_toString code)) w3, None))"
  using dir reg out
  by (cases w)
    (auto simp: decrypt_try_block_def koffi_register_def koffi_unregister_def Let_def
      postMessage_def split: sum.splits)

lemma try_block_native_threw:
  assumes dir: "existsSync env (dirname env outputPath) \<or> mkdirSync env (dirname env outputPath) = None"
    and reg: "koffi_register_throws env = None"
    and out: "outcome (Wcdb_DecryptDatabaseWithProgress env inputPath outputPath hexKey) = Inl e"
  shows "decrypt_try_block env tid inputPath outputPath hexKey w =
     (w\<lparr>registered := next_handle w # registered w,
        next_handle := Suc (next_handle w),
        outbox := outbox w @ snd (run_callbacks tid
           (callbacks (Wcdb_DecryptDatabaseWithProgress env inputPath outputPath hexKey)) 0)\<rparr>,
      Some e)"
  using dir reg out
  by (cases w) (auto simp: decrypt_try_block_def koffi_register_def Let_def)

lemma callback_deregistered_when_native_call_returns:
  assumes dir: "existsSync env (dirname env outputPath) \<or> mkdirSync env (dirname env outputPath) = None"
    and reg: "koffi_register_throws env = None"
    and out: "outcome (Wcdb_DecryptDatabaseWithProgress env inputPath outputPath hexKey) = Inr code"
    and fresh: "next_handle w \<notin> set (registered w)"
  shows "registered (fst (on_message env (DecryptRequest tid inputPath outputPath hexKey) w))
           = registered w"
  using fresh
  by (simp add: on_message_def try_block_native_returned [OF dir reg out] Let_def postMessage_def
      split: sum.splits)

text \<open>
  C4. The claim: the callback registered for a request is deregistered before the handler
  finishes, on every exit path. The theorem evaluates the handler where the native call
  throws: the handler finishes normally, the error is reported, and the callback
  registered for the request (handle 0) is still registered, while
  \<open>callback_deregistered_when_native_call_returns\<close> shows the deregistration on the
  returning path.
\<close>

theorem C4_callback_stays_registered_when_native_call_throws:
  "registered fresh_worker = [] \<and>
   on_message (sample_env None None (Inl (JsError ''Error'' ''boom'')) (Inr [])) sample_request
      fresh_worker
    = (\<lparr>registered = [0], next_handle = 1,
        outbox = [Progress ''k3x9'' 1 3, Progress ''k3x9'' 3 3,
                  Error (Some ''k3x9'') ''Error: boom'']\<rparr>, None)"
  by (simp add: on_message_def sample_request_def fresh_worker_def sample_env_def
      decrypt_try_block_def koffi_register_def Let_def onProgress_def postMessage_def
      String_of_error_def)

text \<open>
  C5. No exception leaves the message handler, whatever the message and the surroundings;
  and an exception raised while a decrypt request is handled (by the creation of the
  output directory, by the registration of the callback, by the native call, or by the
  retrieval of the last error) is reported as the last message posted, an error message
  with the id of the request and the stringified exception.
\<close>

theorem C5_worker_reports_every_exception:
  "snd (on_message env msg w) = None \<and>
   (\<not> existsSync env (dirname env outputPath) \<and> mkdirSync env (dirname env outputPath) = Some e \<longrightarrow>
      outbox (fst (on_message env (DecryptRequest tid inputPath outputPath hexKey) w))
        = outbox w @ [Error (Some tid) (String_of_error e)]) \<and>
   ((existsSync env (dirname env outputPath) \<or> mkdirSync env (dirname env outputPath) = None) \<and>
    koffi_register_throws env = Some e \<longrightarrow>
      outbox (fst (on_message env (DecryptRequest tid inputPath outputPath hexKey) w))
        = outbox w @ [Error (Some tid) (String_of_error e)]) \<and>
   ((existsSync env (dirname env outputPath) \<or> mkdirSync env (dirname env outputPath) = None) \<and>
    koffi_register_throws env = None \<and>
    outcome (Wcdb_DecryptDatabaseWithProgress env inputPath outputPath hexKey) = Inl e \<longrightarrow>
      outbox (fst (on_message env (DecryptRequest tid inputPath outputPath hexKey) w))
        = outbox w @
          snd (run_callbacks tid
                 (callbacks (Wcdb_DecryptDatabaseWithProgress env inputPath outputPath hexKey)) 0) @
          [Error (Some tid) (String_of_error e)]) \<and>
   ((existsSync env (dirname env outputPath) \<or> mkdirSync env (dirname env outputPath) = None) \<and>
    koffi_register_throws env = None \<and>
    outcome (Wcdb_DecryptDatabaseWithProgress env inputPath outputPath hexKey) = Inr code \<and>
    code \<noteq> 0 \<and> Wcdb_GetLastErrorMsg env = Inl e \<longrightarrow>
      outbox (fst (on_message env (DecryptRequest tid inputPath outputPath hexKey) w))
        = outbox w @
          snd (run_callbacks tid
                 (callbacks (Wcdb_DecryptDatabaseWithProgress env inputPath outputPath hexKey)) 0) @
          [Error (Some tid) (String_of_error e)])"
proof -
  have never: "snd (on_message env msg w) = None"
    by (cases msg) (auto simp: on_message_def split: prod.splits option.splits)
  have mk: "outbox (fst (on_message env (DecryptRequest tid inputPath outputPath hexKey) w))
        = outbox w @ [Error (Some tid) (String_of_error e)]"
    if "\<not> existsSync env (dirname env outputPath)" "mkdirSync env (dirname env outputPath) = Some e"
    using that by (simp add: on_message_def decrypt_try_block_def postMessage_def Let_def)
  have rg: "outbox (fst (on_message env (DecryptRequest tid inputPath outputPath hexKey) w))
        = outbox w @ [Error (Some tid) (String_of_error e)]"
    if "existsSync env (dirname env outputPath) \<or> mkdirSync env (dirname env outputPath) = None"
       "koffi_register_throws env = Some e"
    using that
    by (auto simp: on_message_def decrypt_try_block_def postMessage_def koffi_register_def Let_def)
  have nt: "outbox (fst (on_message env (DecryptRequest tid inputPath outputPath hexKey) w))
        = outbox w @
          snd (run_callbacks tid
                 (callbacks (Wcdb_DecryptDatabaseWithProgress env inputPath outputPath hexKey)) 0) @
          [Error (Some tid) (String_of_error e)]"
    if "existsSync env (dirname env outputPath) \<or> mkdirSync env (dirname env outputPath) = None"
       "koffi_register_throws env = None"
       "outcome (Wcdb_DecryptDatabaseWithProgress env inputPath outputPath hexKey) = Inl e"
    by (simp add: on_message_def try_block_native_threw [OF that] postMessage_def)
  have le: "outbox (fst (on_message env (DecryptRequest tid inputPath outputPath hexKey) w))
        = outbox w @
          snd (run_callbacks tid
                 (callbacks (Wcdb_DecryptDatabaseWithProgress env inputPath outputPath hexKey)) 0) @
          [Error (Some tid) (String_of_error e)]"
    if "existsSync env (dirname env outputPath) \<or> mkdirSync env (dirname env outputPath) = None"
       "koffi_register_throws env = None"
       "outcome (Wcdb_DecryptDatabaseWithProgress env inputPath outputPath hexKey) = Inr code"
       "code \<noteq> 0" "Wcdb_GetLastErrorMsg env = Inl e"
    by (simp add: on_message_def try_block_native_returned [OF that(1-3)] that(4,5) Let_def
        postMessage_def)
  from never mk rg nt le show ?thesis by blast
qed

text \<open>The theorem at the four places where the sample surroundings can throw.\<close>

theorem C5_worker_reports_witness:
  "outbox (fst (on_message (sample_env (Some (JsError ''Error'' ''EACCES'')) None (Inr 0) (Inr []))
      sample_request fresh_worker))
     = [Error (Some ''k3x9'') ''Error: EACCES''] \<and>
   snd (on_message (sample_env (Some (JsError ''Error'' ''EACCES'')) None (Inr 0) (Inr []))
      sample_request fresh_worker) = None \<and>
   outbox (fst (on_message (sample_env None (Some (JsError ''Error'' ''no slot'')) (Inr 0) (Inr []))
      sample_request fresh_worker))
     = [Error (Some ''k3x9'') ''Error: no slot''] \<and>
   outbox (fst (on_message (sample_env None None (Inl (JsError ''TypeError'' ''bad call'')) (Inr []))
      sample_request fresh_worker))
     = [Progress ''k3x9'' 1 3, Progress ''k3x9'' 3 3, Error (Some ''k3x9'') ''TypeError: bad call''] \<and>
   outbox (fst (on_message (sample_env None None (Inr 7) (Inl (JsError ''Error'' ''no buffer'')))
      sample_request fresh_worker))
     = [Progress ''k3x9'' 1 3, Progress ''k3x9'' 3 3, Error (Some ''k3x9'') ''Error: no buffer'']"
proof -
  let ?e1 = "sample_env (Some (JsError ''Error'' ''EACCES'')) None (Inr 0) (Inr [])"
  let ?e2 = "sample_env None (Some (JsError ''Error'' ''no slot'')) (Inr 0) (Inr [])"
  let ?e3 = "sample_env None None (Inl (JsError ''TypeError'' ''bad call'')) (Inr [])"
  let ?e4 = "sample_env None None (Inr 7) (Inl (JsError ''Error'' ''no buffer''))"
  note r1 = C5_worker_reports_every_exception [where env = ?e1 and msg = sample_request
      and w = fresh_worker and outputPath = "''C:/out/a.db''" and tid = "''k3x9''"
      and inputPath = "''C:/in/a.db''" and hexKey = "''00ff''"
      and e = "JsError ''Error'' ''EACCES''"]
  from r1 [THEN conjunct2, THEN conjunct1]
  have a1: "outbox (fst (on_message ?e1 sample_request fresh_worker))
     = [Error (Some ''k3x9'') ''Error: EACCES'']"
    by (simp add: sample_env_def sample_request_def fresh_worker_def String_of_error_def)
  note r2 = C5_worker_reports_every_exception [where env = ?e2 and msg = sample_request
      and w = fresh_worker and outputPath = "''C:/out/a.db''" and tid = "''k3x9''"
      and inputPath = "''C:/in/a.db''" and hexKey = "''00ff''"
      and e = "JsError ''Error'' ''no slot''"]
  from r2 [THEN conjunct2, THEN conjunct2, THEN conjunct1]
  have a2: "outbox (fst (on_message ?e2 sample_request fresh_worker))
     = [Error (Some ''k3x9'') ''Error: no slot'']"
    by (simp add: sample_env_def sample_request_def fresh_worker_def String_of_error_def)
  note r3 = C5_worker_reports_every_exception [where env = ?e3 and msg = sample_request
      and w = fresh_worker and outputPath = "''C:/out/a.db''" and tid = "''k3x9''"
      and inputPath = "''C:/in/a.db''" and hexKey = "''00ff''"
      and e = "JsError ''TypeError'' ''bad call''"]
  from r3 [THEN conjunct2, THEN conjunct2, THEN conjunct2, THEN conjunct1]
  have a3: "outbox (fst (on_message ?e3 sample_request fresh_worker))
     = [Progress ''k3x9'' 1 3, Progress ''k3x9'' 3 3, Error (Some ''k3x9'') ''TypeError: bad call'']"
    by (simp add: sample_env_def sample_request_def fresh_worker_def String_of_error_def
        onProgress_def)
  note r4 = C5_worker_reports_every_exception [where env = ?e4 and msg = sample_request
      and w = fresh_worker and outputPath = "''C:/out/a.db''" and tid = "''k3x9''"
      and inputPath = "''C:/in/a.db''" and hexKey = "''00ff''" and code = 7
      and e = "JsError ''Error'' ''no buffer''"]
  from r4 [THEN conjunct2, THEN conjunct2, THEN conjunct2, THEN conjunct2]
  have a4: "outbox (fst (on_message ?e4 sample_request fresh_worker))
     = [Progress ''k3x9'' 1 3, Progress ''k3x9'' 3 3, Error (Some ''k3x9'') ''Error: no buffer'']"
    by (simp add: sample_env_def sample_request_def fresh_worker_def String_of_error_def
        onProgress_def)
  from r1 [THEN conjunct1] have n1: "snd (on_message ?e1 sample_request fresh_worker) = None" .
  from a1 n1 a2 a3 a4 show ?thesis by simp
qed



subsection \<open>The service: pending ids\<close>

lemma init_tasks: "tasks (fst (init env s)) = tasks s"
  by (simp add: init_def Let_def split: option.splits)

lemma ensure_worker_tasks: "tasks (fst (ensure_worker env s)) = tasks s"
  by (simp add: ensure_worker_def init_tasks)

lemma handleWorkerMessage_dom: "dom (tasks (fst (handleWorkerMessage msg s))) \<subseteq> dom (tasks s)"
  by (cases msg) (auto simp: handleWorkerMessage_def split: option.splits)

lemma decryptDatabaseAsync_dom:
  "dom (tasks (fst (decryptDatabaseAsync env random36 promise inputPath outputPath hexKey sink s)))
     \<subseteq> insert (generateId random36) (dom (tasks s))"
  using ensure_worker_tasks [of env s]
  by (auto simp: decryptDatabaseAsync_def Let_def split: prod.splits if_splits)

lemma step_dom: "dom (tasks (fst (step ev s))) \<subseteq> dom (tasks s) \<union> set (submitted_ids [ev])"
proof (cases ev)
  case (WorkerMessage msg)
  then show ?thesis using handleWorkerMessage_dom [of msg s] by auto
next
  case (WorkerError err)
  then show ?thesis by (simp add: on_worker_error_def)
next
  case (WorkerExit code)
  then show ?thesis by (simp add: on_worker_exit_def)
next
  case (Submit env random36 promise inputPath outputPath hexKey sink)
  then show ?thesis
    using decryptDatabaseAsync_dom [of env random36 promise inputPath outputPath hexKey sink s]
    by auto
qed

lemma submitted_ids_Cons: "submitted_ids (ev # evs) = submitted_ids [ev] @ submitted_ids evs"
  by (cases ev) simp_all

lemma reuses_pending_id_dom:
  "reuses_pending_id ev s \<Longrightarrow> \<exists>tid. submitted_ids [ev] = [tid] \<and> tid \<in> dom (tasks s)"
  using ensure_worker_tasks
  by (cases ev) (auto simp: reuses_pending_id_def split: prod.splits, metis fst_conv)

lemma no_reuse_when_ids_differ:
  "distinct (submitted_ids evs) \<Longrightarrow> dom (tasks s) \<inter> set (submitted_ids evs) = {} \<Longrightarrow>
   \<not> some_submit_reuses_pending_id evs s"
proof (induction evs arbitrary: s)
  case Nil
  show ?case by simp
next
  case (Cons ev evs)
  from Cons.prems have d: "distinct (submitted_ids [ev] @ submitted_ids evs)"
    and i: "dom (tasks s) \<inter> set (submitted_ids [ev] @ submitted_ids evs) = {}"
    by (simp_all only: submitted_ids_Cons [of ev evs])
  have here: "\<not> reuses_pending_id ev s"
  proof
    assume "reuses_pending_id ev s"
    then obtain tid where "submitted_ids [ev] = [tid]" "tid \<in> dom (tasks s)"
      using reuses_pending_id_dom by blast
    with i show False by auto
  qed
  from d have d': "distinct (submitted_ids evs)" by simp
  have "dom (tasks (fst (step ev s))) \<inter> set (submitted_ids evs) = {}"
    using step_dom [of ev s] d i by auto
  with Cons.IH [OF d'] have "\<not> some_submit_reuses_pending_id evs (fst (step ev s))" .
  with here show ?case by simp
qed

lemma new_service_tasks: "tasks (fst (NativeDecryptService_new env)) = Map.empty"
  by (simp add: NativeDecryptService_new_def init_tasks blank_service_def)

lemma sample_new:
  "NativeDecryptService_new sample_host =
     (\<lparr>worker = Some (Worker ''C:/app/electron/workers/decryptWorker.js'' ''C:/app/resources/wcdb_decrypt.dll''),
       dllPath = Some ''C:/app/resources/wcdb_decrypt.dll'', initialized = True, initError = None,
       tasks = Map.empty\<rparr>,
      [Started (Worker ''C:/app/electron/workers/decryptWorker.js'' ''C:/app/resources/wcdb_decrypt.dll'')])"
  by (simp add: NativeDecryptService_new_def init_def blank_service_def sample_host_def
      findDllPath_def findWorkerPath_def Let_def)

lemma gen1: "generateId ''0.4fzyo82mvyr'' = ''4fzyo82mvyr''"
  by (simp add: generateId_def substring_def)

lemma gen2: "generateId ''0.k3x9q2'' = ''k3x9q2''"
  by (simp add: generateId_def substring_def)

lemma gen3: "generateId ''0.4fzyo82mvyr9qx7'' = ''4fzyo82mvyr9q''"
  by (simp add: generateId_def substring_def)

lemma generateId_chars: "generateId random36 = take 13 (drop 2 random36)"
  by (simp add: generateId_def substring_def Let_def min_def max_def)

lemma run_Cons_fst:
  "fst (run (ev # evs) (s, fx)) = fst (run evs (fst (step ev s), fx @ snd (step ev s)))"
  by (simp add: case_prod_unfold)

lemma handleWorkerMessage_dom_exact:
  "dom (tasks (fst (handleWorkerMessage msg s))) =
     (case answered_id (WorkerMessage msg) of None \<Rightarrow> dom (tasks s) | Some tid \<Rightarrow> dom (tasks s) - {tid})"
  by (cases msg) (auto simp: handleWorkerMessage_def split: option.splits if_splits)

lemma decryptDatabaseAsync_tasks:
  "tasks (fst (decryptDatabaseAsync env random36 promise inputPath outputPath hexKey sink s)) =
     (if accepted env s
      then (tasks s)(generateId random36 \<mapsto> \<lparr>resolve = promise, task_onProgress = sink\<rparr>)
      else tasks s)"
  using ensure_worker_tasks [of env s]
  by (auto simp: decryptDatabaseAsync_def accepted_def Let_def split: prod.splits)

lemma step_dom_exact:
  "dom (tasks (fst (step ev s))) =
     (case ev of
        Submit env random36 promise inputPath outputPath hexKey sink \<Rightarrow>
          if accepted env s then insert (generateId random36) (dom (tasks s)) else dom (tasks s)
      | _ \<Rightarrow> (case answered_id ev of None \<Rightarrow> dom (tasks s) | Some tid \<Rightarrow> dom (tasks s) - {tid}))"
proof (cases ev)
  case (WorkerMessage msg)
  then show ?thesis using handleWorkerMessage_dom_exact [of msg s] by simp
next
  case (WorkerError err)
  then show ?thesis by (simp add: on_worker_error_def)
next
  case (WorkerExit code)
  then show ?thesis by (simp add: on_worker_exit_def)
next
  case (Submit env random36 promise inputPath outputPath hexKey sink)
  then show ?thesis by (simp add: decryptDatabaseAsync_tasks)
qed

lemma run_dom:
  "dom (tasks (fst (run evs (s, fx)))) = spec_pending evs s (dom (tasks s))"
proof (induction evs arbitrary: s fx)
  case Nil
  show ?case by simp
next
  case (Cons ev evs)
  show ?case
    unfolding run_Cons_fst Cons.IH spec_pending.simps step_dom_exact ..
qed

lemma reuses_pending_id_iff:
  "reuses_pending_id (Submit env random36 promise inputPath outputPath hexKey sink) s \<longleftrightarrow>
     accepted env s \<and> generateId random36 \<in> dom (tasks s)"
  using ensure_worker_tasks [of env s]
  by (auto simp: reuses_pending_id_def accepted_def split: prod.splits)

lemma ensure_worker_ignores_tasks:
  "ensure_worker env (s\<lparr>tasks := tbl\<rparr>) =
     (fst (ensure_worker env s)\<lparr>tasks := tbl\<rparr>, snd (ensure_worker env s))"
  by (simp add: ensure_worker_def init_def Let_def split: option.splits)

lemma decryptDatabaseAsync_ignores_tasks:
  "snd (decryptDatabaseAsync env random36 promise inputPath outputPath hexKey sink (s\<lparr>tasks := tbl\<rparr>))
     = snd (decryptDatabaseAsync env random36 promise inputPath outputPath hexKey sink s)"
  by (simp add: decryptDatabaseAsync_def ensure_worker_ignores_tasks Let_def case_prod_unfold)

lemma decryptDatabaseAsync_posts:
  "accepted env s \<Longrightarrow>
   snd (decryptDatabaseAsync env random36 promise inputPath outputPath hexKey sink s)
     = snd (ensure_worker env s) @
       [Posted (DecryptRequest (generateId random36) inputPath outputPath hexKey)]"
  by (simp add: decryptDatabaseAsync_def accepted_def Let_def case_prod_unfold)

text \<open>
  C2 (as amended). The id of a new task is computed from the random draw alone: the
  pending table is not consulted (what the call posts is the same whatever the table
  holds; the id is the 13 characters that follow the first two of the draw's base-36
  rendering), and \<^verbatim>\<open>tasks.set\<close> stores the task under that id whatever is stored there. In
  every state a run of the service reaches, the table holds exactly the ids of the
  accepted submits that have not been answered by a success or error message since; so
  the id generated for a new task equals an id still present in the table at the moment
  of insertion exactly when the draw yields one of those ids, and is new to the table
  otherwise.
\<close>

theorem C2_id_from_draw_alone_reuse_iff_still_pending:
  assumes "run pre (NativeDecryptService_new env0) = (s, fx)"
  shows "dom (tasks s) = spec_pending pre (fst (NativeDecryptService_new env0)) {} \<and>
     (reuses_pending_id (Submit env random36 promise inputPath outputPath hexKey sink) s \<longleftrightarrow>
        accepted env s \<and>
        generateId random36 \<in> spec_pending pre (fst (NativeDecryptService_new env0)) {}) \<and>
     (accepted env s \<longrightarrow>
        tasks (fst (decryptDatabaseAsync env random36 promise inputPath outputPath hexKey sink s))
          = (tasks s)(generateId random36 \<mapsto> \<lparr>resolve = promise, task_onProgress = sink\<rparr>) \<and>
        snd (decryptDatabaseAsync env random36 promise inputPath outputPath hexKey sink s)
          = snd (ensure_worker env s) @
            [Posted (DecryptRequest (generateId random36) inputPath outputPath hexKey)]) \<and>
     (\<forall>tbl. snd (decryptDatabaseAsync env random36 promise inputPath outputPath hexKey sink
                   (s\<lparr>tasks := tbl\<rparr>))
            = snd (decryptDatabaseAsync env random36 promise inputPath outputPath hexKey sink s)) \<and>
     generateId random36 = take 13 (drop 2 random36)"
proof -
  have "dom (tasks (fst (run pre (fst (NativeDecryptService_new env0), snd (NativeDecryptService_new env0)))))
      = spec_pending pre (fst (NativeDecryptService_new env0))
          (dom (tasks (fst (NativeDecryptService_new env0))))"
    by (rule run_dom)
  with assms have a: "dom (tasks s) = spec_pending pre (fst (NativeDecryptService_new env0)) {}"
    by (simp add: new_service_tasks)
  have b: "reuses_pending_id (Submit env random36 promise inputPath outputPath hexKey sink) s \<longleftrightarrow>
        accepted env s \<and>
        generateId random36 \<in> spec_pending pre (fst (NativeDecryptService_new env0)) {}"
    unfolding reuses_pending_id_iff a ..
  have c: "tasks (fst (decryptDatabaseAsync env random36 promise inputPath outputPath hexKey sink s))
          = (tasks s)(generateId random36 \<mapsto> \<lparr>resolve = promise, task_onProgress = sink\<rparr>)"
    if "accepted env s"
    using that by (simp add: decryptDatabaseAsync_tasks)
  have d: "snd (decryptDatabaseAsync env random36 promise inputPath outputPath hexKey sink s)
          = snd (ensure_worker env s) @
            [Posted (DecryptRequest (generateId random36) inputPath outputPath hexKey)]"
    if "accepted env s"
    using that by (rule decryptDatabaseAsync_posts)
  have e: "\<forall>tbl. snd (decryptDatabaseAsync env random36 promise inputPath outputPath hexKey sink
                   (s\<lparr>tasks := tbl\<rparr>))
            = snd (decryptDatabaseAsync env random36 promise inputPath outputPath hexKey sink s)"
    by (simp add: decryptDatabaseAsync_ignores_tasks)
  note f = generateId_chars [of random36]
  from a b c d e f show ?thesis by blast
qed

text \<open>
  The theorem at three calls: a draw repeated after its task was answered is not a reuse,
  a draw repeated while its task is pending is one, and a different draw is not.
\<close>

theorem C2_reuse_iff_witness:
  "\<not> reuses_pending_id (sample_submit ''0.4fzyo82mvyr'' 2)
       (fst (run [sample_submit ''0.4fzyo82mvyr'' 1, WorkerMessage (Success ''4fzyo82mvyr'')]
          (NativeDecryptService_new sample_host))) \<and>
   reuses_pending_id (sample_submit ''0.4fzyo82mvyr'' 2)
       (fst (run [sample_submit ''0.4fzyo82mvyr'' 1] (NativeDecryptService_new sample_host))) \<and>
   \<not> reuses_pending_id (sample_submit ''0.k3x9q2'' 2)
       (fst (run [sample_submit ''0.4fzyo82mvyr'' 1] (NativeDecryptService_new sample_host))) \<and>
   generateId ''0.4fzyo82mvyr9qx7'' = ''4fzyo82mvyr9q''"
proof -
  let ?new = "NativeDecryptService_new sample_host"
  let ?answered = "[sample_submit ''0.4fzyo82mvyr'' 1, WorkerMessage (Success ''4fzyo82mvyr'')]"
  let ?open = "[sample_submit ''0.4fzyo82mvyr'' 1]"
  have acc: "accepted sample_host s" if "worker s \<noteq> None" for s
    using that by (auto simp: accepted_def ensure_worker_def)
  have p1: "spec_pending ?answered (fst ?new) {} = {}"
    by (simp add: sample_submit_def acc sample_new gen1)
  have p2: "spec_pending ?open (fst ?new) {} = {''4fzyo82mvyr''}"
    by (simp add: sample_submit_def acc sample_new gen1)
  obtain s1 fx1 where r1: "run ?answered ?new = (s1, fx1)" by (cases "run ?answered ?new")
  obtain s2 fx2 where r2: "run ?open ?new = (s2, fx2)" by (cases "run ?open ?new")
  have w2: "worker s2 \<noteq> None"
    using r2 by (auto simp: sample_new sample_submit_def decryptDatabaseAsync_def
        ensure_worker_def Let_def)
  note t1 = C2_id_from_draw_alone_reuse_iff_still_pending [OF r1, THEN conjunct2, THEN conjunct1, of sample_host "''0.4fzyo82mvyr''" 2
      "''C:/in/a.db''" "''C:/out/a.db''" "''00ff''" None]
  note t2 = C2_id_from_draw_alone_reuse_iff_still_pending [OF r2, THEN conjunct2, THEN conjunct1, of sample_host "''0.4fzyo82mvyr''" 2
      "''C:/in/a.db''" "''C:/out/a.db''" "''00ff''" None]
  note t3 = C2_id_from_draw_alone_reuse_iff_still_pending [OF r2, THEN conjunct2, THEN conjunct1, of sample_host "''0.k3x9q2''" 2
      "''C:/in/a.db''" "''C:/out/a.db''" "''00ff''" None]
  from t1 have a: "\<not> reuses_pending_id (sample_submit ''0.4fzyo82mvyr'' 2) s1"
    unfolding p1 by (simp add: sample_submit_def)
  from t2 acc [OF w2] have b: "reuses_pending_id (sample_submit ''0.4fzyo82mvyr'' 2) s2"
    unfolding p2 by (simp add: sample_submit_def gen1)
  from t3 have c: "\<not> reuses_pending_id (sample_submit ''0.k3x9q2'' 2) s2"
    unfolding p2 by (simp add: sample_submit_def gen2)
  from C2_id_from_draw_alone_reuse_iff_still_pending [OF r2, THEN conjunct2, THEN conjunct2,
      THEN conjunct2, THEN conjunct2, of "''0.4fzyo82mvyr9qx7''"]
  have d: "generateId ''0.4fzyo82mvyr9qx7'' = ''4fzyo82mvyr9q''" by simp
  from a b c d show ?thesis unfolding r1 r2 by simp
qed

text \<open>
  The claim as first stated fails when the random draw repeats while the first task is
  pending: the second call generates the pending id, and its \<^verbatim>\<open>tasks.set\<close> replaces the
  first task, whose promise (1) can no longer be resolved.
\<close>

theorem C2_reuse_counterexample:
  "some_submit_reuses_pending_id [sample_submit ''0.4fzyo82mvyr'' 1, sample_submit ''0.4fzyo82mvyr'' 2]
     (fst (NativeDecryptService_new sample_host)) \<and>
   tasks (fst (run [sample_submit ''0.4fzyo82mvyr'' 1, sample_submit ''0.4fzyo82mvyr'' 2]
     (NativeDecryptService_new sample_host))) ''4fzyo82mvyr''
     = Some \<lparr>resolve = 2, task_onProgress = None\<rparr> \<and>
   dom (tasks (fst (run [sample_submit ''0.4fzyo82mvyr'' 1, sample_submit ''0.4fzyo82mvyr'' 2]
     (NativeDecryptService_new sample_host)))) = {''4fzyo82mvyr''}"
  by (simp add: sample_new sample_submit_def gen1 reuses_pending_id_def ensure_worker_def
      decryptDatabaseAsync_def Let_def)

subsection \<open>The service: messages of the worker\<close>

text \<open>
  C6. A success or error message whose id is in the pending table resolves that task's
  promise with \<open>{success: true}\<close>, respectively \<open>{success: false, error: message}\<close>, and
  removes the task from the table; a message whose id is not in the table, or that has no
  id, leaves the state as it is and does nothing.
\<close>

theorem C6_terminal_message_resolves_and_removes:
  "(tasks s tid = Some task \<longrightarrow>
      handleWorkerMessage (Success tid) s =
        (s\<lparr>tasks := (tasks s)(tid := None)\<rparr>,
         [Resolved (resolve task) \<lparr>success = True, error = None\<rparr>]) \<and>
      handleWorkerMessage (Error (Some tid) err) s =
        (s\<lparr>tasks := (tasks s)(tid := None)\<rparr>,
         [Resolved (resolve task) \<lparr>success = False, error = Some err\<rparr>])) \<and>
   (tasks s tid = None \<longrightarrow>
      handleWorkerMessage (Success tid) s = (s, []) \<and>
      handleWorkerMessage (Error (Some tid) err) s = (s, [])) \<and>
   handleWorkerMessage (Error None err) s = (s, [])"
  by (simp add: handleWorkerMessage_def)

text \<open>The theorem at a service with one pending task.\<close>

theorem C6_terminal_message_witness:
  "handleWorkerMessage (Success ''4fzyo82mvyr'')
     (fst (run [sample_submit ''0.4fzyo82mvyr'' 1] (NativeDecryptService_new sample_host)))
    = (fst (NativeDecryptService_new sample_host),
       [Resolved 1 \<lparr>success = True, error = None\<rparr>]) \<and>
   handleWorkerMessage (Error (Some ''4fzyo82mvyr'') ''bad key'')
     (fst (run [sample_submit ''0.4fzyo82mvyr'' 1] (NativeDecryptService_new sample_host)))
    = (fst (NativeDecryptService_new sample_host),
       [Resolved 1 \<lparr>success = False, error = Some ''bad key''\<rparr>]) \<and>
   handleWorkerMessage (Success ''zzzz'')
     (fst (run [sample_submit ''0.4fzyo82mvyr'' 1] (NativeDecryptService_new sample_host)))
    = (fst (run [sample_submit ''0.4fzyo82mvyr'' 1] (NativeDecryptService_new sample_host)), [])"
proof -
  let ?s = "fst (run [sample_submit ''0.4fzyo82mvyr'' 1] (NativeDecryptService_new sample_host))"
  let ?new = "fst (NativeDecryptService_new sample_host)"
  have s: "?s = ?new\<lparr>tasks := [''4fzyo82mvyr'' \<mapsto> \<lparr>resolve = 1, task_onProgress = None\<rparr>]\<rparr>"
    by (simp add: sample_new sample_submit_def gen1 decryptDatabaseAsync_def ensure_worker_def
        Let_def)
  have p: "tasks ?s ''4fzyo82mvyr'' = Some \<lparr>resolve = 1, task_onProgress = None\<rparr>"
    unfolding s by simp
  have q: "tasks ?s ''zzzz'' = None"
    unfolding s by (simp add: sample_new)
  have d: "?s\<lparr>tasks := (tasks ?s)(''4fzyo82mvyr'' := None)\<rparr> = ?new"
    unfolding s by (simp add: sample_new)
  note t = C6_terminal_message_resolves_and_removes [of ?s "''4fzyo82mvyr''" "\<lparr>resolve = 1, task_onProgress = None\<rparr>" "''bad key''"]
  note u = C6_terminal_message_resolves_and_removes [of ?s "''zzzz''" "\<lparr>resolve = 1, task_onProgress = None\<rparr>" "''bad key''"]
  from t [THEN conjunct1] p d
  have a: "handleWorkerMessage (Success ''4fzyo82mvyr'') ?s
             = (?new, [Resolved 1 \<lparr>success = True, error = None\<rparr>])"
    and b: "handleWorkerMessage (Error (Some ''4fzyo82mvyr'') ''bad key'') ?s
             = (?new, [Resolved 1 \<lparr>success = False, error = Some ''bad key''\<rparr>])"
    by simp_all
  from u [THEN conjunct2, THEN conjunct1] q
  have c: "handleWorkerMessage (Success ''zzzz'') ?s = (?s, [])" by simp
  from a b c show ?thesis by simp
qed

subsection \<open>The service: availability and restart\<close>

lemma init_inv:
  assumes "service_inv (s, fx)"
  shows "service_inv (fst (init env s), fx @ snd (init env s))"
  using assms
  by (auto simp: service_inv_def init_def Let_def split: option.splits)

lemma handleWorkerMessage_keeps:
  "worker (fst (handleWorkerMessage msg s)) = worker s \<and>
   initialized (fst (handleWorkerMessage msg s)) = initialized s"
  by (cases msg) (auto simp: handleWorkerMessage_def split: option.splits)

lemma step_inv:
  assumes "service_inv (s, fx)"
  shows "service_inv (fst (step ev s), fx @ snd (step ev s))"
proof (cases ev)
  case (WorkerMessage msg)
  with assms handleWorkerMessage_keeps [of msg s] show ?thesis
    by (auto simp: service_inv_def)
next
  case (WorkerError err)
  with assms show ?thesis by (auto simp: service_inv_def on_worker_error_def)
next
  case (WorkerExit code)
  with assms show ?thesis by (auto simp: service_inv_def on_worker_exit_def)
next
  case (Submit env random36 promise inputPath outputPath hexKey sink)
  have e: "service_inv (fst (ensure_worker env s), fx @ snd (ensure_worker env s))"
    using assms init_inv [OF assms, of env] by (simp add: ensure_worker_def)
  then show ?thesis unfolding Submit
    by (auto simp: service_inv_def decryptDatabaseAsync_def Let_def split: prod.splits)
qed

lemma run_inv: "service_inv sfx \<Longrightarrow> service_inv (run evs sfx)"
proof (induction evs arbitrary: sfx)
  case Nil
  then show ?case by simp
next
  case (Cons ev evs)
  from Cons.prems have "service_inv (fst sfx, snd sfx)" by simp
  then have "service_inv (fst (step ev (fst sfx)), snd sfx @ snd (step ev (fst sfx)))"
    by (rule step_inv)
  then have "service_inv (run evs (fst (step ev (fst sfx)), snd sfx @ snd (step ev (fst sfx))))"
    by (rule Cons.IH)
  then show ?case by (simp add: case_prod_unfold)
qed

lemma new_service_inv: "service_inv (NativeDecryptService_new env)"
proof -
  have "service_inv (blank_service, [])" by (simp add: service_inv_def blank_service_def)
  from init_inv [OF this, of env] show ?thesis by (simp add: NativeDecryptService_new_def)
qed

lemma findDllPath_nonempty: "findDllPath env = Some dll \<Longrightarrow> dll \<noteq> []"
  by (auto simp: findDllPath_def split: option.splits if_splits)

lemma findWorkerPath_nonempty: "findWorkerPath env = Some script \<Longrightarrow> script \<noteq> []"
  by (auto simp: findWorkerPath_def split: option.splits if_splits)

lemma new_service_available:
  "isAvailable (fst (NativeDecryptService_new env)) \<longleftrightarrow>
     findDllPath env \<noteq> None \<and> findWorkerPath env \<noteq> None \<and> new_Worker_throws env = None"
  by (auto simp: NativeDecryptService_new_def init_def blank_service_def isAvailable_def Let_def
      dest: findDllPath_nonempty findWorkerPath_nonempty split: option.splits)

lemma init_available:
  "isAvailable (fst (init env s)) =
     (if list_ex is_Started (snd (init env s)) then True else isAvailable s)"
  by (auto simp: init_def Let_def isAvailable_def split: option.splits)

lemma step_available:
  "isAvailable (fst (step ev s)) =
     (if list_ex is_Started (snd (step ev s)) then True
      else case ev of WorkerExit code \<Rightarrow> isAvailable s \<and> code = 0 | _ \<Rightarrow> isAvailable s)"
proof (cases ev)
  case (WorkerMessage msg)
  then show ?thesis
    using handleWorkerMessage_keeps [of msg s]
    by (cases msg) (auto simp: isAvailable_def handleWorkerMessage_def split: option.splits)
next
  case (WorkerError err)
  then show ?thesis by (simp add: on_worker_error_def isAvailable_def)
next
  case (WorkerExit code)
  then show ?thesis by (simp add: on_worker_exit_def isAvailable_def)
next
  case (Submit env random36 promise inputPath outputPath hexKey sink)
  show ?thesis
    unfolding Submit using init_available [of env s]
    by (auto simp: decryptDatabaseAsync_def ensure_worker_def Let_def isAvailable_def
        split: prod.splits if_splits)
qed

lemma run_available:
  "isAvailable (fst (run evs (s, fx))) = spec_worker_alive evs s (isAvailable s)"
proof (induction evs arbitrary: s fx)
  case Nil
  show ?case by simp
next
  case (Cons ev evs)
  show ?case
    unfolding run_Cons_fst Cons.IH spec_worker_alive.simps step_available ..
qed

lemma blank_not_available: "\<not> isAvailable blank_service"
  by (simp add: isAvailable_def blank_service_def)

lemma new_available_started:
  "isAvailable (fst (NativeDecryptService_new env)) = list_ex is_Started (snd (NativeDecryptService_new env))"
  unfolding NativeDecryptService_new_def using init_available [of env blank_service]
  by (simp add: blank_not_available)

lemma alive_persists:
  "\<not> list_ex abnormal_exit evs \<Longrightarrow> spec_worker_alive evs s True"
proof (induction evs arbitrary: s)
  case Nil
  show ?case by simp
next
  case (Cons ev evs)
  then show ?case by (cases ev) auto
qed

text \<open>
  C3 (as amended). \<open>isAvailable()\<close> returns true only after \<open>init\<close> has constructed a
  worker; it does not wait for the worker's ready message. In every state a run of the
  service reaches, \<open>isAvailable()\<close> is true exactly when a worker object is held, which is
  exactly when a worker has been started and no exit with a non-zero code has been handled
  since: messages of the worker (\<^verbatim>\<open>ready\<close> among them), its \<^verbatim>\<open>error\<close> event and an exit
  with code 0 leave the answer as it is. Right after construction it is true exactly when
  the DLL and the worker script were found and the worker could be constructed.
\<close>

theorem C3_isAvailable_means_worker_constructed:
  assumes "run evs (NativeDecryptService_new env) = (s, fx)"
  shows "(isAvailable s \<longleftrightarrow> worker s \<noteq> None) \<and>
         (isAvailable s \<longleftrightarrow>
            spec_worker_alive evs (fst (NativeDecryptService_new env))
              (list_ex is_Started (snd (NativeDecryptService_new env)))) \<and>
         (isAvailable s \<longrightarrow> (\<exists>w. Started w \<in> set fx)) \<and>
         handleWorkerMessage Ready s = (s, []) \<and>
         (\<forall>code. code \<noteq> 0 \<longrightarrow> \<not> isAvailable (on_worker_exit code s)) \<and>
         (\<forall>evs'. isAvailable s \<and> \<not> list_ex abnormal_exit evs' \<longrightarrow>
            isAvailable (fst (run evs' (s, fx)))) \<and>
         (isAvailable (fst (NativeDecryptService_new env)) \<longleftrightarrow>
            findDllPath env \<noteq> None \<and> findWorkerPath env \<noteq> None \<and> new_Worker_throws env = None)"
proof -
  from run_inv [OF new_service_inv, of evs env] assms have inv: "service_inv (s, fx)" by simp
  then have a: "isAvailable s \<longleftrightarrow> worker s \<noteq> None"
    and b: "isAvailable s \<longrightarrow> (\<exists>w. Started w \<in> set fx)"
    by (auto simp: service_inv_def isAvailable_def)
  have "isAvailable (fst (run evs (fst (NativeDecryptService_new env), snd (NativeDecryptService_new env))))
      = spec_worker_alive evs (fst (NativeDecryptService_new env))
          (isAvailable (fst (NativeDecryptService_new env)))"
    by (rule run_available)
  with assms have l: "isAvailable s \<longleftrightarrow>
            spec_worker_alive evs (fst (NativeDecryptService_new env))
              (list_ex is_Started (snd (NativeDecryptService_new env)))"
    by (simp add: new_available_started)
  have c: "handleWorkerMessage Ready s = (s, [])" by (simp add: handleWorkerMessage_def)
  have d: "\<forall>code. code \<noteq> 0 \<longrightarrow> \<not> isAvailable (on_worker_exit code s)"
    by (simp add: on_worker_exit_def isAvailable_def)
  have p: "isAvailable (fst (run evs' (s, fx)))"
    if "isAvailable s" "\<not> list_ex abnormal_exit evs'" for evs'
    using that alive_persists [of evs' s] by (simp add: run_available)
  from a l b c d p new_service_available [of env] show ?thesis by blast
qed

text \<open>
  The theorem at three runs: after ready and an exit with code 1 the service is not
  available; right after construction it is; and after ready, an error event and an exit
  with code 0 it still is.
\<close>

theorem C3_isAvailable_witness:
  "isAvailable (fst (run [WorkerMessage Ready, WorkerExit 1] (NativeDecryptService_new sample_host))) = False \<and>
   isAvailable (fst (NativeDecryptService_new sample_host)) = True \<and>
   isAvailable (fst (run [WorkerMessage Ready, WorkerError (JsError ''Error'' ''boom''), WorkerExit 0]
      (NativeDecryptService_new sample_host))) = True"
proof -
  let ?new = "NativeDecryptService_new sample_host"
  let ?evs = "[WorkerMessage Ready, WorkerExit 1]"
  let ?quiet = "[WorkerMessage Ready, WorkerError (JsError ''Error'' ''boom''), WorkerExit 0]"
  obtain s fx where r: "run ?evs ?new = (s, fx)" by (cases "run ?evs ?new")
  have w: "worker s = None"
    using r by (auto simp: sample_new handleWorkerMessage_def on_worker_exit_def)
  note t = C3_isAvailable_means_worker_constructed [OF r]
  from t [THEN conjunct1] w have a: "isAvailable s = False" by simp
  have "findDllPath sample_host \<noteq> None \<and> findWorkerPath sample_host \<noteq> None \<and>
        new_Worker_throws sample_host = None"
    by (simp add: findDllPath_def findWorkerPath_def sample_host_def)
  with t [THEN conjunct2, THEN conjunct2, THEN conjunct2, THEN conjunct2, THEN conjunct2,
      THEN conjunct2]
  have b: "isAvailable (fst ?new) = True" by simp
  have r0: "run [] ?new = (fst ?new, snd ?new)" by simp
  have q: "\<not> list_ex abnormal_exit ?quiet" by simp
  from C3_isAvailable_means_worker_constructed [OF r0, THEN conjunct2, THEN conjunct2, THEN conjunct2, THEN conjunct2,
      THEN conjunct2, THEN conjunct1, rule_format, of ?quiet] b q
  have c: "isAvailable (fst (run ?quiet ?new)) = True" by simp
  from a b c r show ?thesis by simp
qed

text \<open>
  The claim as first stated fails in the state the constructor leaves: no message of the
  worker has been handled, the worker has just been started, and \<open>isAvailable()\<close> is true.
\<close>

theorem C3_available_before_ready_counterexample:
  "isAvailable (fst (run [] (NativeDecryptService_new sample_host))) = True \<and>
   snd (run [] (NativeDecryptService_new sample_host))
     = [Started (Worker ''C:/app/electron/workers/decryptWorker.js'' ''C:/app/resources/wcdb_decrypt.dll'')]"
  by (simp add: sample_new isAvailable_def)

lemma sample_found:
  "findDllPath sample_host = Some ''C:/app/resources/wcdb_decrypt.dll''"
  "findWorkerPath sample_host = Some ''C:/app/electron/workers/decryptWorker.js''"
  "new_Worker_throws sample_host = None"
  by (simp_all add: findDllPath_def findWorkerPath_def sample_host_def)

lemma restart_after_abnormal_exit_without_recorded_error:
  assumes code: "code \<noteq> 0" and s1: "s1 = on_worker_exit code s"
    and clean: "falsy (initError s)"
    and found: "findDllPath env = Some dll" "findWorkerPath env = Some script"
      "new_Worker_throws env = None"
  shows "decryptDatabaseAsync env random36 promise inputPath outputPath hexKey sink s1 =
             (s\<lparr>worker := Some (Worker script dll), dllPath := Some dll, initialized := True,
                tasks := (tasks s)(generateId random36 \<mapsto>
                            \<lparr>resolve = promise, task_onProgress = sink\<rparr>)\<rparr>,
              [Started (Worker script dll),
               Posted (DecryptRequest (generateId random36) inputPath outputPath hexKey)])"
  using clean found code findDllPath_nonempty [OF found(1)] findWorkerPath_nonempty [OF found(2)]
  by (cases s)
     (simp add: decryptDatabaseAsync_def ensure_worker_def s1 on_worker_exit_def init_def Let_def)

text \<open>
  C8. The claim: after the worker has exited with a non-zero code, the next submit starts a
  new worker. The theorem evaluates the service where the worker's \<^verbatim>\<open>error\<close> event
  precedes its exit with code 1: the handler of the event stores its text in
  \<open>initError\<close>, the guard \<^verbatim>\<open>!this.initError\<close> then skips \<open>init\<close>, the submit is answered
  with the stored text and the only worker ever started is the constructor's. Where the
  exit comes alone, the same submit does start a second worker and posts the request
  (in general: \<open>restart_after_abnormal_exit_without_recorded_error\<close>).
\<close>

theorem C8_no_restart_after_worker_error:
  "snd (run [WorkerError (JsError ''Error'' ''boom''), WorkerExit 1, sample_submit ''0.4fzyo82mvyr'' 7]
          (NativeDecryptService_new sample_host))
     = [Started (Worker ''C:/app/electron/workers/decryptWorker.js'' ''C:/app/resources/wcdb_decrypt.dll''),
        Resolved 7 \<lparr>success = False, error = Some ''Worker error: boom''\<rparr>] \<and>
   worker (fst (run [WorkerError (JsError ''Error'' ''boom''), WorkerExit 1, sample_submit ''0.4fzyo82mvyr'' 7]
          (NativeDecryptService_new sample_host))) = None \<and>
   snd (run [WorkerExit 1, sample_submit ''0.4fzyo82mvyr'' 7] (NativeDecryptService_new sample_host))
     = [Started (Worker ''C:/app/electron/workers/decryptWorker.js'' ''C:/app/resources/wcdb_decrypt.dll''),
        Started (Worker ''C:/app/electron/workers/decryptWorker.js'' ''C:/app/resources/wcdb_decrypt.dll''),
        Posted (DecryptRequest ''4fzyo82mvyr'' ''C:/in/a.db'' ''C:/out/a.db'' ''00ff'')]"
  by (simp add: sample_new sample_submit_def on_worker_error_def on_worker_exit_def
      decryptDatabaseAsync_def ensure_worker_def falsy_def init_def Let_def sample_found gen1)

subsection \<open>The key validation\<close>

text \<open>
  C9. \<open>validateKey\<close> answers true for every pair (dbPath, hexKey): it inspects neither
  argument, so its answer cannot tell a wrong key from a right one.
\<close>

theorem C9_validateKey_always_true:
  "validateKey dbPath hexKey = True \<and> validateKey dbPath hexKey = validateKey dbPath' hexKey'"
  by (simp add: validateKey_def)

end
